theory Spec2Isabelle
  imports Main
begin

section \<open>Memory allocators with error handling (common-src/alloc.c)\<close>

text \<open>
  A shallow embedding of \<^verbatim>\<open>alloc.c\<close>. The C functions work on the process heap, on the
  static list of caller locations inside \<^verbatim>\<open>debug_caller_loc\<close> and on the answers of the
  platform allocator; the model threads all three through a state record. Sizes are
  \<^verbatim>\<open>size_t\<close> values of an LP64 platform (64 bits); string lengths are lengths of data that
  is held in memory and are kept as natural numbers, the arithmetic of
  \<^verbatim>\<open>debug_amtable_alloc\<close> on caller-supplied counts is reduced modulo \<open>2 ^ 64\<close>.
\<close>

subsection \<open>Bytes and C strings\<close>

abbreviation NUL :: char where
  "NUL \<equiv> CHR 0x00"

text \<open>A \<^verbatim>\<open>const char *\<close> argument is given by the bytes found at the pointer; the C string
  ends at the first NUL byte (or at the end of the list, where the terminator sits).\<close>

definition cstr :: "string \<Rightarrow> string" where
  "cstr s = takeWhile (\<lambda>c. c \<noteq> NUL) s"

definition strlen :: "string \<Rightarrow> nat" where
  "strlen s = length (cstr s)"

text \<open>\<^verbatim>\<open>strncmp(a, b, n) == 0\<close>: the first \<open>n\<close> characters of the two C strings agree.\<close>

definition strncmp_eq :: "string \<Rightarrow> string \<Rightarrow> nat \<Rightarrow> bool" where
  "strncmp_eq a b n = (take n (cstr a) = take n (cstr b))"

text \<open>\<^verbatim>\<open>strrchr(s, c)\<close>: the tail of the C string that starts at the last \<open>c\<close>, if any.\<close>

definition strrchr :: "string \<Rightarrow> char \<Rightarrow> string option" where
  "strrchr s c =
     (if c \<in> set (cstr s) then Some (c # rev (takeWhile (\<lambda>x. x \<noteq> c) (rev (cstr s))))
      else None)"

text \<open>The \<^verbatim>\<open>%d\<close> and \<^verbatim>\<open>%zu\<close> conversions of the printf family.\<close>

function dec :: "nat \<Rightarrow> string" where
  "dec n = (if n < 10 then [''0123456789'' ! n]
            else dec (n div 10) @ [''0123456789'' ! (n mod 10)])"
  by pat_completeness auto
termination
  by (relation "measure (\<lambda>n. n)") auto

declare dec.simps [simp del]

definition fmt_d :: "int \<Rightarrow> string" where
  "fmt_d i = (if i < 0 then CHR ''-'' # dec (nat (- i)) else dec (nat i))"

text \<open>\<^verbatim>\<open>snprintf(buf, n, ...)\<close> keeps at most \<open>n - 1\<close> characters of the rendered text.\<close>

definition snprintf :: "nat \<Rightarrow> string \<Rightarrow> string" where
  "snprintf n text = take (n - 1) text"

subsection \<open>The heap and the platform allocator\<close>

datatype ptr = Null | Ptr nat

datatype malloc_outcome = NoMem | Fresh "nat \<Rightarrow> char"

text \<open>
  Modelled from the spec: \<^verbatim>\<open>errordump\<close> is declared in a header that is not part of
  the sources. It is the fatal diagnostic sink: it reports the formatted message and does
  not return, so a call of it ends the function with the value \<open>Fatal\<close> of the
  message. \<open>Undefined\<close> stands for behaviour that C leaves undefined.
\<close>

datatype error =
    Fatal string
  | Undefined string

text \<open>
  \<open>heap\<close> holds one slot per call of \<^verbatim>\<open>malloc\<close> so far: the bytes of a live region,
  or \<open>None\<close> once it is released (or when the call failed). The address of a region is
  the number of its slot, so an address is never handed out twice. \<open>platform\<close> is what the
  platform allocator answers to its \<open>n\<close>-th call: no memory, or a region whose bytes
  are whatever was there. \<open>root\<close> is the static list of \<^verbatim>\<open>debug_caller_loc\<close>, most
  recently used first.
\<close>

record state =
  heap :: "string option list"
  platform :: "nat \<Rightarrow> malloc_outcome"
  root :: "string list"

definition block :: "state \<Rightarrow> nat \<Rightarrow> string option" where
  "block st a = (if a < length (heap st) then heap st ! a else None)"

definition malloc :: "state \<Rightarrow> nat \<Rightarrow> state \<times> ptr" where
  "malloc st n =
     (case platform st (length (heap st)) of
        NoMem \<Rightarrow> (st\<lparr>heap := heap st @ [None]\<rparr>, Null)
      | Fresh junk \<Rightarrow>
          (st\<lparr>heap := heap st @ [Some (map junk [0..<n])]\<rparr>, Ptr (length (heap st))))"

definition release :: "state \<Rightarrow> nat \<Rightarrow> state" where
  "release st a = st\<lparr>heap := (heap st)[a := None]\<rparr>"

definition free :: "state \<Rightarrow> ptr \<Rightarrow> error + state" where
  "free st p =
     (case p of
        Null \<Rightarrow> Inr st
      | Ptr a \<Rightarrow>
          (case block st a of
             None \<Rightarrow> Inl (Undefined ''free of a region that is not allocated'')
           | Some b \<Rightarrow> Inr (release st a)))"

text \<open>Writing \<open>bs\<close> at byte offset \<open>off\<close> of the region at \<open>p\<close>
  (\<^verbatim>\<open>memcpy\<close>, \<^verbatim>\<open>memset\<close>, \<^verbatim>\<open>strcpy\<close>, an assignment through a pointer).\<close>

definition store :: "state \<Rightarrow> ptr \<Rightarrow> nat \<Rightarrow> string \<Rightarrow> error + state" where
  "store st p off bs =
     (case p of
        Null \<Rightarrow> Inl (Undefined ''write through a null pointer'')
      | Ptr a \<Rightarrow>
          (case block st a of
             None \<Rightarrow> Inl (Undefined ''write to a region that is not allocated'')
           | Some b \<Rightarrow>
               if off + length bs \<le> length b
               then Inr (st\<lparr>heap := (heap st)
                          [a := Some (take off b @ bs @ drop (off + length bs) b)]\<rparr>)
               else Inl (Undefined ''write past the end of a region'')))"

text \<open>Reading \<open>n\<close> bytes at byte offset \<open>off\<close> of the region at \<open>p\<close>.\<close>

definition load :: "state \<Rightarrow> ptr \<Rightarrow> nat \<Rightarrow> nat \<Rightarrow> error + string" where
  "load st p off n =
     (case p of
        Null \<Rightarrow> Inl (Undefined ''read through a null pointer'')
      | Ptr a \<Rightarrow>
          (case block st a of
             None \<Rightarrow> Inl (Undefined ''read of a region that is not allocated'')
           | Some b \<Rightarrow>
               if off + n \<le> length b then Inr (take n (drop off b))
               else Inl (Undefined ''read past the end of a region'')))"

subsection \<open>debug_caller_loc\<close>

text \<open>The \<^verbatim>\<open>for\<close> loop over the list: the position of the first entry equal to \<open>loc\<close>.\<close>

fun find_loc :: "string \<Rightarrow> string list \<Rightarrow> nat option" where
  "find_loc loc [] = None"
| "find_loc loc (s # ls) =
     (if loc = s then Some 0
      else (case find_loc loc ls of None \<Rightarrow> None | Some i \<Rightarrow> Some (Suc i)))"

definition SIZEOF_loc_str :: nat where
  "SIZEOF_loc_str = 24"

definition caller_loc :: "string \<Rightarrow> int \<Rightarrow> string" where
  "caller_loc file line =
     (let file' = (case strrchr file (CHR ''/'') of Some p \<Rightarrow> tl p | None \<Rightarrow> cstr file)
      in snprintf 256 (file' @ ''@'' @ fmt_d line))"

text \<open>
  The node and its string are two regions of the heap that are never released; the model
  keeps their order and the strings in \<open>root\<close>. The result is the string returned.
\<close>

definition debug_caller_loc :: "state \<Rightarrow> string \<Rightarrow> int \<Rightarrow> state \<times> string" where
  "debug_caller_loc st file line =
     (let loc = caller_loc file line in
      case find_loc loc (root st) of
        Some i \<Rightarrow>
          (if i \<noteq> 0
           then (st\<lparr>root := (root st ! i) # (take i (root st) @ drop (Suc i) (root st))\<rparr>,
                 root st ! i)
           else (st, root st ! i))
      | None \<Rightarrow>
          (case malloc st SIZEOF_loc_str of
             (st1, Null) \<Rightarrow> (st1, ''??'')
           | (st1, Ptr ls) \<Rightarrow>
               (case malloc st1 (strlen loc + 1) of
                  (st2, Null) \<Rightarrow> (release st2 ls, ''??'')
                | (st2, Ptr s) \<Rightarrow> (st2\<lparr>root := loc # root st2\<rparr>, loc))))"

subsection \<open>debug_alloc\<close>

text \<open>
  Modelled from the spec: \<^verbatim>\<open>malloc_enter\<close> and \<^verbatim>\<open>malloc_leave\<close> are macros of a header
  that is not part of the sources. They record the call site for the duration of the call
  and have no effect on the allocation: the model evaluates their argument, a call of
  \<^verbatim>\<open>debug_caller_loc\<close>, and drops the descriptor.
\<close>

definition malloc_enter :: "state \<times> string \<Rightarrow> state" where
  "malloc_enter r = fst r"

definition malloc_leave :: "state \<times> string \<Rightarrow> state" where
  "malloc_leave r = fst r"

definition alloc_failed :: "string \<Rightarrow> int \<Rightarrow> nat \<Rightarrow> error" where
  "alloc_failed file line sz =
     Fatal (cstr file @ ''@'' @ fmt_d line @ '': memory allocation failed ('' @ dec sz
            @ '' bytes requested)'')"

text \<open>\<open>file\<close> is not a null pointer where the message is built: \<^verbatim>\<open>debug_caller_loc\<close>
  has read it before.\<close>

definition debug_alloc :: "state \<Rightarrow> string \<Rightarrow> int \<Rightarrow> nat \<Rightarrow> error + state \<times> ptr" where
  "debug_alloc st file line sz =
     (let st1 = malloc_enter (debug_caller_loc st file line);
          (st2, addr) = malloc st1 (max sz 1)
      in if addr = Null then Inl (alloc_failed file line sz)
         else Inr (malloc_leave (debug_caller_loc st2 file line), addr))"

subsection \<open>internal_vstralloc and debug_vstralloc\<close>

definition MAX_VSTRALLOC_ARGS :: nat where
  "MAX_VSTRALLOC_ARGS = 32"

definition too_many_args :: "string \<Rightarrow> int \<Rightarrow> error" where
  "too_many_args file line =
     Fatal (cstr file @ ''@'' @ fmt_d line @ '': more than '' @ dec MAX_VSTRALLOC_ARGS
            @ '' args to vstralloc'')"

text \<open>
  The variadic arguments are the strings before the terminating null pointer. The
  \<^verbatim>\<open>while\<close> loop fills the arrays \<^verbatim>\<open>arg\<close> and \<^verbatim>\<open>len\<close>, here one list of pairs whose
  length is the counter \<^verbatim>\<open>a\<close>, and sums the lengths.
\<close>

fun vstralloc_args ::
  "string \<Rightarrow> int \<Rightarrow> string list \<Rightarrow> (string \<times> nat) list \<Rightarrow> nat
     \<Rightarrow> error + (string \<times> nat) list \<times> nat" where
  "vstralloc_args file line [] args total_len = Inr (args, total_len)"
| "vstralloc_args file line (nxt # argp) args total_len =
     (let l = strlen nxt in
      if l = 0 then vstralloc_args file line argp args total_len
      else if length args \<ge> MAX_VSTRALLOC_ARGS then Inl (too_many_args file line)
      else vstralloc_args file line argp (args @ [(nxt, l)]) (total_len + l))"

text \<open>The \<^verbatim>\<open>for\<close> loop: each \<^verbatim>\<open>memcpy(next, arg[b], len[b])\<close> followed by
  \<^verbatim>\<open>next += len[b]\<close>; \<open>nxt\<close> is the offset of \<^verbatim>\<open>next\<close> in \<^verbatim>\<open>result\<close>.\<close>

fun vstralloc_copy ::
  "state \<Rightarrow> ptr \<Rightarrow> nat \<Rightarrow> (string \<times> nat) list \<Rightarrow> error + state \<times> nat" where
  "vstralloc_copy st result nxt [] = Inr (st, nxt)"
| "vstralloc_copy st result nxt ((arg, len) # args) =
     (case store st result nxt (take len arg) of
        Inl e \<Rightarrow> Inl e
      | Inr st' \<Rightarrow> vstralloc_copy st' result (nxt + len) args)"

definition internal_vstralloc ::
  "state \<Rightarrow> string \<Rightarrow> int \<Rightarrow> string option \<Rightarrow> string list \<Rightarrow> error + state \<times> ptr" where
  "internal_vstralloc st file line str argp =
     (case str of
        None \<Rightarrow> Inl (Fatal ''internal_vstralloc: str is NULL'')
      | Some s \<Rightarrow>
          (case vstralloc_args file line argp [(s, strlen s)] (strlen s) of
             Inl e \<Rightarrow> Inl e
           | Inr (args, total_len) \<Rightarrow>
               (case debug_alloc st file line (total_len + 1) of
                  Inl e \<Rightarrow> Inl e
                | Inr (st1, result) \<Rightarrow>
                    (case vstralloc_copy st1 result 0 args of
                       Inl e \<Rightarrow> Inl e
                     | Inr (st2, nxt) \<Rightarrow>
                         (case store st2 result nxt [NUL] of
                            Inl e \<Rightarrow> Inl e
                          | Inr st3 \<Rightarrow> Inr (st3, result))))))"

definition debug_vstralloc ::
  "state \<Rightarrow> string \<Rightarrow> int \<Rightarrow> string option \<Rightarrow> string list \<Rightarrow> error + state \<times> ptr" where
  "debug_vstralloc st file line str argp =
     (let st1 = malloc_enter (debug_caller_loc st file line) in
      case internal_vstralloc st1 file line str argp of
        Inl e \<Rightarrow> Inl e
      | Inr (st2, result) \<Rightarrow> Inr (malloc_leave (debug_caller_loc st2 file line), result))"

subsection \<open>debug_amfree\<close>

text \<open>
  Modelled from the spec: \<^verbatim>\<open>debug_amfree\<close> is declared in a header that is not part of
  the sources. The spec has the release of a buffer free the region if the pointer is
  non-null, and names a second release of the same region a caller error; the pointer is
  an argument passed by value, so the caller's variable keeps its value.
\<close>

definition debug_amfree :: "state \<Rightarrow> string \<Rightarrow> int \<Rightarrow> ptr \<Rightarrow> error + state" where
  "debug_amfree st file line p = free st p"

subsection \<open>Arithmetic on size_t\<close>

text \<open>
  Arithmetic on \<^verbatim>\<open>size_t\<close>: 64 bits without a sign. An \<^verbatim>\<open>int\<close> operand of a mixed
  expression, and an \<^verbatim>\<open>int\<close> assigned to a \<^verbatim>\<open>size_t\<close>, is converted first: a negative
  value wraps around.
\<close>

definition size_t :: "int \<Rightarrow> nat" where
  "size_t i = nat (i mod 2 ^ 64)"

definition add_sz :: "nat \<Rightarrow> nat \<Rightarrow> nat" where
  "add_sz a b = (a + b) mod 2 ^ 64"

definition sub_sz :: "nat \<Rightarrow> nat \<Rightarrow> nat" where
  "sub_sz a b = size_t (int a - int b)"

definition mul_sz :: "nat \<Rightarrow> nat \<Rightarrow> nat" where
  "mul_sz a b = (a * b) mod 2 ^ 64"

subsection \<open>debug_vstrallocf\<close>

definition MIN_ALLOC :: nat where
  "MIN_ALLOC = 64"

definition INT_MAX :: nat where
  "INT_MAX = 2 ^ 31 - 1"

text \<open>
  \<^verbatim>\<open>vsnprintf(buf, n, fmt, argp)\<close> is the C library's. The format and the arguments of
  one call of \<^verbatim>\<open>debug_vstrallocf\<close> are the same at both calls of \<^verbatim>\<open>vsnprintf\<close>; only the
  buffer and its size \<open>n\<close> change. The model takes the formatter as \<open>render\<close>: \<open>render n\<close>
  is the bytes that the call with a buffer of \<open>n\<close> bytes writes at the start of the
  buffer, and the \<^verbatim>\<open>int\<close> that it returns.
\<close>

definition vsnprintf ::
  "(nat \<Rightarrow> string \<times> int) \<Rightarrow> state \<Rightarrow> ptr \<Rightarrow> nat \<Rightarrow> error + state \<times> int" where
  "vsnprintf render st buf n =
     (case render n of
        (bytes, ret) \<Rightarrow>
          (case store st buf 0 bytes of
             Inl e \<Rightarrow> Inl e
           | Inr st' \<Rightarrow> Inr (st', ret)))"

text \<open>
  The formatter of C99 on a format and arguments that render to \<open>text\<close>: the call writes
  at most \<open>n - 1\<close> characters of the text and a NUL (nothing when \<open>n = 0\<close>) and returns the
  length of the whole text. The return value is an \<^verbatim>\<open>int\<close>, so this is the formatter only
  for a text of at most \<^verbatim>\<open>INT_MAX\<close> characters.
\<close>

definition rendering :: "string \<Rightarrow> nat \<Rightarrow> string \<times> int" where
  "rendering text n =
     ((if n = 0 then [] else take (n - 1) text @ [NUL]), int (length text))"

text \<open>
  A formatter that reports an error: it writes nothing and returns \<open>- 1\<close>.
\<close>

definition render_error :: "nat \<Rightarrow> string \<times> int" where
  "render_error n = ([], - 1)"

text \<open>
  \<^verbatim>\<open>size\<close> is a \<^verbatim>\<open>size_t\<close>: the \<^verbatim>\<open>int\<close> that \<^verbatim>\<open>vsnprintf\<close> returns is converted, and
  \<^verbatim>\<open>size + 1\<close> is computed in \<^verbatim>\<open>size_t\<close>.
\<close>

definition debug_vstrallocf ::
  "state \<Rightarrow> string \<Rightarrow> int \<Rightarrow> (nat \<Rightarrow> string \<times> int) \<Rightarrow> error + state \<times> ptr" where
  "debug_vstrallocf st file line render =
     (let st0 = malloc_enter (debug_caller_loc st file line) in
      case debug_alloc st0 file line MIN_ALLOC of
        Inl e \<Rightarrow> Inl e
      | Inr (st1, result) \<Rightarrow>
          if result \<noteq> Null then
            (case vsnprintf render st1 result MIN_ALLOC of
               Inl e \<Rightarrow> Inl e
             | Inr (st2, ret) \<Rightarrow>
                 (let sz = size_t ret in
                  if sz \<ge> MIN_ALLOC then
                    (case debug_amfree st2 file line result of
                       Inl e \<Rightarrow> Inl e
                     | Inr st3 \<Rightarrow>
                         (case debug_alloc st3 file line (add_sz sz 1) of
                            Inl e \<Rightarrow> Inl e
                          | Inr (st4, result') \<Rightarrow>
                              (case vsnprintf render st4 result' (add_sz sz 1) of
                                 Inl e \<Rightarrow> Inl e
                               | Inr (st5, ret') \<Rightarrow>
                                   Inr (malloc_leave (debug_caller_loc st5 file line),
                                        result'))))
                  else Inr (malloc_leave (debug_caller_loc st2 file line), result)))
          else Inr (malloc_leave (debug_caller_loc st1 file line), result))"

subsection \<open>debug_amtable_alloc and debug_amtable_free\<close>

text \<open>
  The initialisation function is called with a pointer to one element. The model gives
  it the byte offset of the element in the table, the state \<open>'w\<close> of whatever else it
  reads and writes, and the bytes of the element; it answers the new state and the bytes
  it leaves in the element. The \<^verbatim>\<open>for\<close> loop runs \<open>i\<close> from \<^verbatim>\<open>*current\<close> up to
  \<^verbatim>\<open>table_count_new\<close>.
\<close>

function amtable_init ::
  "(nat \<Rightarrow> 'w \<Rightarrow> string \<Rightarrow> 'w \<times> string) \<Rightarrow> state \<Rightarrow> ptr \<Rightarrow> nat \<Rightarrow> nat \<Rightarrow> nat \<Rightarrow> 'w
     \<Rightarrow> error + state \<times> 'w" where
  "amtable_init init_func st table elsize i table_count_new w =
     (if i < table_count_new then
        (case load st table (mul_sz i elsize) elsize of
           Inl e \<Rightarrow> Inl e
         | Inr el \<Rightarrow>
             (case init_func (mul_sz i elsize) w el of
                (w', el') \<Rightarrow>
                  (case store st table (mul_sz i elsize) el' of
                     Inl e \<Rightarrow> Inl e
                   | Inr st' \<Rightarrow>
                       amtable_init init_func st' table elsize (Suc i) table_count_new w')))
      else Inr (st, w))"
  by pat_completeness auto
termination
  by (relation "measure (\<lambda>(init_func, st, table, elsize, i, table_count_new, w).
        table_count_new - i)") auto

declare amtable_init.simps [simp del]

text \<open>
  \<open>table\<close> and \<open>current\<close> are the values of \<^verbatim>\<open>*table\<close> and \<^verbatim>\<open>*current\<close> at the
  call; the result holds their values at the return (the \<^verbatim>\<open>int\<close> returned is always 0).
  A division by a \<open>bump\<close> of zero is undefined in C.
\<close>

definition debug_amtable_alloc ::
  "state \<Rightarrow> string \<Rightarrow> int \<Rightarrow> ptr \<Rightarrow> nat \<Rightarrow> nat \<Rightarrow> nat \<Rightarrow> int
     \<Rightarrow> (nat \<Rightarrow> 'w \<Rightarrow> string \<Rightarrow> 'w \<times> string) option \<Rightarrow> 'w
     \<Rightarrow> error + state \<times> ptr \<times> nat \<times> 'w" where
  "debug_amtable_alloc st file line table current elsize count bump init_func w =
     (if count \<ge> current then
        (if size_t bump = 0 then Inl (Undefined ''division by zero'')
         else
           (let table_count_new = mul_sz (add_sz count (size_t bump) div size_t bump) (size_t bump)
            in case debug_alloc st file line (mul_sz table_count_new elsize) of
                 Inl e \<Rightarrow> Inl e
               | Inr (st1, table_new) \<Rightarrow>
                   (case (if table \<noteq> Null
                          then (case load st1 table 0 (mul_sz current elsize) of
                                  Inl e \<Rightarrow> Inl e
                                | Inr bytes \<Rightarrow>
                                    (case store st1 table_new 0 bytes of
                                       Inl e \<Rightarrow> Inl e
                                     | Inr st2 \<Rightarrow> free st2 table))
                          else Inr st1) of
                      Inl e \<Rightarrow> Inl e
                    | Inr st3 \<Rightarrow>
                        (case store st3 table_new (mul_sz current elsize)
                                (replicate (mul_sz (sub_sz table_count_new current) elsize) NUL) of
                           Inl e \<Rightarrow> Inl e
                         | Inr st4 \<Rightarrow>
                             (case init_func of
                                None \<Rightarrow> Inr (st4, table_new, table_count_new, w)
                              | Some f \<Rightarrow>
                                  (case amtable_init f st4 table_new elsize current
                                          table_count_new w of
                                     Inl e \<Rightarrow> Inl e
                                   | Inr (st5, w') \<Rightarrow>
                                       Inr (st5, table_new, table_count_new, w')))))))
      else Inr (st, table, current, w))"

definition debug_amtable_free ::
  "state \<Rightarrow> string \<Rightarrow> int \<Rightarrow> ptr \<Rightarrow> nat \<Rightarrow> error + state \<times> ptr \<times> nat" where
  "debug_amtable_free st file line table current =
     (case debug_amfree st file line table of
        Inl e \<Rightarrow> Inl e
      | Inr st' \<Rightarrow> Inr (st', table, 0))"

text \<open>The bytes a table handle stands for: none for the null handle of a table that has
  not been allocated yet.\<close>

definition table_bytes :: "state \<Rightarrow> ptr \<Rightarrow> string option" where
  "table_bytes st table = (case table of Null \<Rightarrow> Some [] | Ptr a \<Rightarrow> block st a)"

text \<open>The capacity and the table a call of \<^verbatim>\<open>debug_amtable_alloc\<close> leaves, if it returns.\<close>

definition new_capacity :: "error + state \<times> ptr \<times> nat \<times> 'w \<Rightarrow> nat option" where
  "new_capacity r = (case r of Inl e \<Rightarrow> None | Inr (st, table, current, w) \<Rightarrow> Some current)"

definition new_table :: "error + state \<times> ptr \<times> nat \<times> 'w \<Rightarrow> string option" where
  "new_table r =
     (case r of
        Inl e \<Rightarrow> None
      | Inr (st, table, current, w) \<Rightarrow> (case table of Null \<Rightarrow> None | Ptr a \<Rightarrow> block st a))"

text \<open>
  What a growth is to leave in the new slots, in the words of the description of the
  table: every new slot starts as zeros and is passed to the initialisation function once,
  in ascending order of its index. The result is the bytes of the new slots and the final
  state of the initialisation function.
\<close>

fun init_slots ::
  "(nat \<Rightarrow> 'w \<Rightarrow> string \<Rightarrow> 'w \<times> string) \<Rightarrow> nat \<Rightarrow> nat list \<Rightarrow> 'w \<Rightarrow> string \<times> 'w" where
  "init_slots f elsize [] w = ([], w)"
| "init_slots f elsize (i # is) w =
     (case f (i * elsize) w (replicate elsize NUL) of
        (w', el) \<Rightarrow> (case init_slots f elsize is w' of (rest, w'') \<Rightarrow> (el @ rest, w'')))"

definition new_slots ::
  "(nat \<Rightarrow> 'w \<Rightarrow> string \<Rightarrow> 'w \<times> string) option \<Rightarrow> nat \<Rightarrow> nat \<Rightarrow> nat \<Rightarrow> 'w \<Rightarrow> string \<times> 'w" where
  "new_slots init_func elsize current table_count_new w =
     (case init_func of
        None \<Rightarrow> (replicate ((table_count_new - current) * elsize) NUL, w)
      | Some f \<Rightarrow> init_slots f elsize [current..<table_count_new] w)"

subsection \<open>debug_stralloc\<close>

definition debug_stralloc :: "state \<Rightarrow> string \<Rightarrow> int \<Rightarrow> string \<Rightarrow> error + state \<times> ptr" where
  "debug_stralloc st file line str =
     (let st0 = malloc_enter (debug_caller_loc st file line) in
      case debug_alloc st0 file line (strlen str + 1) of
        Inl e \<Rightarrow> Inl e
      | Inr (st1, addr) \<Rightarrow>
          (case store st1 addr 0 (cstr str @ [NUL]) of
             Inl e \<Rightarrow> Inl e
           | Inr st2 \<Rightarrow> Inr (malloc_leave (debug_caller_loc st2 file line), addr)))"

text \<open>
  Modelled from the spec: \<^verbatim>\<open>stralloc\<close> is a macro of a header that is not part of the
  sources; it is the duplication of the fail-fast allocator, \<^verbatim>\<open>debug_stralloc\<close> with the
  file and the line of the call, here the one in \<^verbatim>\<open>safe_env\<close>.
\<close>

definition stralloc :: "state \<Rightarrow> string \<Rightarrow> error + state \<times> ptr" where
  "stralloc st str = debug_stralloc st ''alloc.c'' 461 str"

subsection \<open>safe_env\<close>

text \<open>
  What the function reads of the process: the real and effective identifiers, the
  list \<^verbatim>\<open>environ\<close> (the strings before its terminating null pointer) and the answers
  of \<^verbatim>\<open>getenv\<close>.
\<close>

record process =
  uid :: nat
  euid :: nat
  gid :: nat
  egid :: nat
  environ :: "string list"
  getenv :: "string \<Rightarrow> string option"

text \<open>The static list, without its terminating null pointer; the two conditional entries
  depend on the platform the file is compiled for.\<close>

definition safe_env_list :: "bool \<Rightarrow> bool \<Rightarrow> string list" where
  "safe_env_list cygwin need_path_env =
     [''TZ''] @ (if cygwin then [''SYSTEMROOT''] else [])
       @ (if need_path_env then [''PATH''] else []) @ [''DISPLAY'']"

definition SIZEOF_char_ptr :: nat where
  "SIZEOF_char_ptr = 8"

text \<open>
  The result of \<^verbatim>\<open>safe_env\<close> is a pointer to an array of string pointers that ends with
  a null pointer. The model returns the pointers before the null pointer, in order; the
  array is the region from \<^verbatim>\<open>malloc\<close>, or the end of the static list when that
  allocation fails. The first loop copies \<^verbatim>\<open>environ\<close>; \<open>p\<close> holds what has been stored
  through \<^verbatim>\<open>p\<close> so far.
\<close>

fun safe_env_copy :: "state \<Rightarrow> string list \<Rightarrow> ptr list \<Rightarrow> error + state \<times> ptr list" where
  "safe_env_copy st [] p = Inr (st, p)"
| "safe_env_copy st (env # rest) p =
     (if \<not> strncmp_eq ''LANG='' env 5 \<and> \<not> strncmp_eq ''LC_'' env 3
      then (case stralloc st env of
              Inl e \<Rightarrow> Inl e
            | Inr (st', s) \<Rightarrow> safe_env_copy st' rest (p @ [s]))
      else safe_env_copy st rest p)"

text \<open>The second loop runs over the static list; \<open>q\<close> holds what has been stored
  through \<^verbatim>\<open>q\<close> so far. A failed allocation leaves the loop.\<close>

fun safe_env_allow ::
  "(string \<Rightarrow> string option) \<Rightarrow> state \<Rightarrow> string list \<Rightarrow> ptr list \<Rightarrow> error + state \<times> ptr list" where
  "safe_env_allow getenv' st [] q = Inr (st, q)"
| "safe_env_allow getenv' st (p # ps) q =
     (case getenv' p of
        None \<Rightarrow> safe_env_allow getenv' st ps q
      | Some v \<Rightarrow>
          (let l1 = strlen p; l2 = strlen v + 1 in
           case malloc st (l1 + 1 + l2) of
             (st1, Null) \<Rightarrow> Inr (st1, q)
           | (st1, s) \<Rightarrow>
               (case store st1 s 0 (take l1 p) of
                  Inl e \<Rightarrow> Inl e
                | Inr st2 \<Rightarrow>
                    (case store st2 s l1 ''='' of
                       Inl e \<Rightarrow> Inl e
                     | Inr st3 \<Rightarrow>
                         (case store st3 s (l1 + 1) (take l2 (cstr v @ [NUL])) of
                            Inl e \<Rightarrow> Inl e
                          | Inr st4 \<Rightarrow> safe_env_allow getenv' st4 ps (q @ [s]))))))"

definition safe_env :: "bool \<Rightarrow> bool \<Rightarrow> process \<Rightarrow> state \<Rightarrow> error + state \<times> ptr list" where
  "safe_env cygwin need_path_env pr st =
     (if uid pr = euid pr \<and> gid pr = egid pr then
        (let env_cnt = 1 + length (environ pr) in
         case malloc st (env_cnt * SIZEOF_char_ptr) of
           (st1, Null) \<Rightarrow> Inr (st1, [])
         | (st1, q) \<Rightarrow> safe_env_copy st1 (environ pr) [])
      else
        (case malloc st ((length (safe_env_list cygwin need_path_env) + 1) * SIZEOF_char_ptr) of
           (st1, Null) \<Rightarrow> Inr (st1, [])
         | (st1, q) \<Rightarrow>
             safe_env_allow (getenv pr) st1 (safe_env_list cygwin need_path_env) []))"

text \<open>
  The entries the second branch is to build, in the words of the description of the
  sanitizer: one \<^verbatim>\<open>NAME=VALUE\<close> string for every name of the list that is set, in the
  order of the list.
\<close>

definition allowed_entries :: "(string \<Rightarrow> string option) \<Rightarrow> string list \<Rightarrow> string list" where
  "allowed_entries getenv' names =
     concat (map (\<lambda>n. case getenv' n of None \<Rightarrow> [] | Some v \<Rightarrow> [cstr n @ ''='' @ cstr v]) names)"

text \<open>
  The requests of the second branch go to the platform allocator in a row: the list,
  then one region for every name that is set. \<open>granted pf n m\<close> is the number of requests,
  of \<open>m\<close> requests made in a row from call \<open>n\<close> of the platform allocator on, that are
  granted before the first one that is refused.
\<close>

fun granted :: "(nat \<Rightarrow> malloc_outcome) \<Rightarrow> nat \<Rightarrow> nat \<Rightarrow> nat" where
  "granted pf n 0 = 0"
| "granted pf n (Suc m) = (if pf n = NoMem then 0 else Suc (granted pf (Suc n) m))"

text \<open>The bytes of the region a pointer points to.\<close>

definition region :: "state \<Rightarrow> ptr \<Rightarrow> string option" where
  "region st p = (case p of Null \<Rightarrow> None | Ptr a \<Rightarrow> block st a)"

text \<open>The strings of an environment list the function returned, if it returned one.\<close>

definition result_env :: "error + state \<times> ptr list \<Rightarrow> string option list option" where
  "result_env r =
     (case r of
        Inl e \<Rightarrow> None
      | Inr (st, envp) \<Rightarrow> Some (map (\<lambda>p. map_option cstr (region st p)) envp))"

text \<open>
  The entries the copy is to leave out, in the words of the description of the
  sanitizer: those whose name, the part before the first \<open>=\<close>, is \<^verbatim>\<open>LANG\<close> or starts
  with \<^verbatim>\<open>LC_\<close>.
\<close>

definition entry_name :: "string \<Rightarrow> string" where
  "entry_name e = takeWhile (\<lambda>c. c \<noteq> CHR ''='') (cstr e)"

definition locale_entry :: "string \<Rightarrow> bool" where
  "locale_entry e = (entry_name e = ''LANG'' \<or> take 3 (entry_name e) = ''LC_'')"

text \<open>The C string found at the pointer a call returned, if it returned one.\<close>

definition result_string :: "error + state \<times> ptr \<Rightarrow> string option" where
  "result_string r =
     (case r of
        Inl e \<Rightarrow> None
      | Inr (st, p) \<Rightarrow> (case p of Null \<Rightarrow> None | Ptr a \<Rightarrow> map_option cstr (block st a)))"

text \<open>The size of the region at the pointer a call returned, if it returned one.\<close>

definition result_size :: "error + state \<times> ptr \<Rightarrow> nat option" where
  "result_size r =
     (case r of
        Inl e \<Rightarrow> None
      | Inr (st, p) \<Rightarrow> (case p of Null \<Rightarrow> None | Ptr a \<Rightarrow> map_option length (block st a)))"

subsection \<open>Sample states\<close>

text \<open>An empty heap and an empty list of caller locations, with a platform allocator
  that never fails, with one that always fails, and with one whose first answer is a
  failure.\<close>

definition st_init :: state where
  "st_init = \<lparr>heap = [], platform = (\<lambda>n. Fresh (\<lambda>i. CHR ''x'')), root = []\<rparr>"

definition st_nomem :: state where
  "st_nomem = \<lparr>heap = [], platform = (\<lambda>n. NoMem), root = []\<rparr>"


text \<open>A heap with one table of three 4-byte elements, and an initialisation function
  that fills an element with the letter i and records the offset it was called with.\<close>

definition st_table :: state where
  "st_table =
     \<lparr>heap = [Some ''abcdefghijkl''], platform = (\<lambda>n. Fresh (\<lambda>i. CHR ''x'')), root = []\<rparr>"

definition log_init :: "nat \<Rightarrow> nat list \<Rightarrow> string \<Rightarrow> nat list \<times> string" where
  "log_init off w el = (w @ [off], map (\<lambda>c. CHR ''i'') el)"

text \<open>A process without privilege whose environment has one entry, and a platform
  allocator that grants its first request only.\<close>

definition pr_plain :: process where
  "pr_plain =
     \<lparr>uid = 1000, euid = 1000, gid = 100, egid = 100, environ = [''A=1''],
      getenv = (\<lambda>n. if n = ''A'' then Some ''1'' else None)\<rparr>"

definition st_grant_once :: state where
  "st_grant_once =
     \<lparr>heap = [], platform = (\<lambda>n. if n = 0 then Fresh (\<lambda>i. CHR ''x'') else NoMem),
      root = []\<rparr>"

text \<open>A process without privilege with locale entries in its environment, and a process
  whose effective user differs from the real one.\<close>

definition pr_locale :: process where
  "pr_locale =
     \<lparr>uid = 1000, euid = 1000, gid = 100, egid = 100,
      environ = [''LANG=C'', ''A=1'', ''LC_ALL=C''],
      getenv = (\<lambda>n. if n = ''A'' then Some ''1'' else None)\<rparr>"

definition pr_setuid :: process where
  "pr_setuid =
     \<lparr>uid = 1000, euid = 0, gid = 100, egid = 100,
      environ = [''A=1'', ''TZ=UTC''],
      getenv = (\<lambda>n. if n = ''TZ'' then Some ''UTC'' else if n = ''A'' then Some ''1'' else None)\<rparr>"

text \<open>A process whose effective group differs from the real one, with both names of the
  list set, and a platform allocator that grants two requests and refuses every later
  one.\<close>

definition pr_setgid :: process where
  "pr_setgid =
     \<lparr>uid = 1000, euid = 1000, gid = 100, egid = 0,
      environ = [''TZ=UTC'', ''DISPLAY=:0''],
      getenv = (\<lambda>n. if n = ''TZ'' then Some ''UTC''
                     else if n = ''DISPLAY'' then Some '':0'' else None)\<rparr>"

definition st_grant_twice :: state where
  "st_grant_twice =
     \<lparr>heap = [], platform = (\<lambda>n. if n < 2 then Fresh (\<lambda>i. CHR ''x'') else NoMem),
      root = []\<rparr>"

section \<open>Properties\<close>

subsection \<open>The heap\<close>

lemma malloc_platform [simp]: "platform (fst (malloc st n)) = platform st"
  by (simp add: malloc_def split: malloc_outcome.split)

lemma malloc_root [simp]: "root (fst (malloc st n)) = root st"
  by (simp add: malloc_def split: malloc_outcome.split)

lemma block_append:
  "a < length (heap st) \<Longrightarrow> heap st' = heap st @ ys \<Longrightarrow> block st' a = block st a"
  by (simp add: block_def nth_append)

lemma block_fresh: "heap st' = heap st @ ys \<Longrightarrow> block st (length (heap st')) = None"
  by (simp add: block_def)

subsection \<open>The list of caller locations\<close>

lemma find_loc_Some: "find_loc loc ls = Some i \<Longrightarrow> i < length ls \<and> ls ! i = loc"
  by (induction ls arbitrary: i) (auto split: if_splits option.splits)

lemma dec_nonempty: "dec n \<noteq> []"
  by (subst dec.simps) simp

lemma fmt_d_nonempty: "fmt_d i \<noteq> []"
  by (simp add: fmt_d_def dec_nonempty)


text \<open>The string built for a location is never the sentinel: it holds the \<open>@\<close>, or it
  fills the 255 characters of the static buffer.\<close>

lemma caller_loc_not_sentinel: "caller_loc file line \<noteq> ''??''"
proof -
  define f where "f = (case strrchr file (CHR ''/'') of Some p \<Rightarrow> tl p | None \<Rightarrow> cstr file)"
  define t where "t = f @ ''@'' @ fmt_d line"
  have loc: "caller_loc file line = take 255 t"
    by (simp add: caller_loc_def snprintf_def f_def t_def Let_def)
  show ?thesis
  proof (cases "length t \<le> 255")
    case True
    then have "caller_loc file line = t" by (simp add: loc)
    moreover have "CHR ''@'' \<in> set t" by (simp add: t_def)
    ultimately show ?thesis by auto
  next
    case False
    then have "length (caller_loc file line) = 255" by (simp add: loc)
    then show ?thesis by auto
  qed
qed

text \<open>The sentinel is returned exactly when the location is new and one of the two
  allocations of the insertion fails.\<close>

lemma debug_caller_loc_sentinel:
  "snd (debug_caller_loc st file line) = ''??'' \<longleftrightarrow>
     find_loc (caller_loc file line) (root st) = None \<and>
     (platform st (length (heap st)) = NoMem \<or> platform st (Suc (length (heap st))) = NoMem)"
  using caller_loc_not_sentinel [of "file" line]
  by (auto simp: debug_caller_loc_def Let_def malloc_def dest: find_loc_Some
      split: option.split malloc_outcome.split)

lemma debug_caller_loc_heap:
  "\<exists>ys. heap (fst (debug_caller_loc st file line)) = heap st @ ys"
  by (auto simp: debug_caller_loc_def Let_def malloc_def release_def
      split: option.split malloc_outcome.split prod.split ptr.split)

lemma debug_caller_loc_platform [simp]:
  "platform (fst (debug_caller_loc st file line)) = platform st"
  by (auto simp: debug_caller_loc_def Let_def malloc_def release_def
      split: option.split malloc_outcome.split prod.split ptr.split)




subsection \<open>debug_alloc\<close>

text \<open>
  C6. For every size, \<^verbatim>\<open>debug_alloc\<close> asks the platform allocator for \<open>max size 1\<close>
  bytes. Either the platform grants the request and the call returns a non-null pointer to
  a region of exactly \<open>max size 1\<close> bytes that was not allocated before the call, or
  the platform refuses it and the call ends in \<^verbatim>\<open>errordump\<close>; no null pointer and no
  other failure value is returned.
\<close>

theorem debug_alloc_buffer_or_fatal:
  "(\<exists>st' a junk.
      debug_alloc st file line sz = Inr (st', Ptr a) \<and>
      a = length (heap (fst (debug_caller_loc st file line))) \<and>
      platform st a = Fresh junk \<and>
      block st a = None \<and>
      block st' a = Some (map junk [0..<max sz 1]))
   \<or> (debug_alloc st file line sz = Inl (alloc_failed file line sz) \<and>
       platform st (length (heap (fst (debug_caller_loc st file line)))) = NoMem)"
proof -
  define st1 where "st1 = fst (debug_caller_loc st file line)"
  obtain ys where ys: "heap st1 = heap st @ ys"
    using debug_caller_loc_heap [of st "file" line] by (auto simp: st1_def)
  have pl: "platform st1 = platform st" by (simp add: st1_def)
  show ?thesis
  proof (cases "platform st (length (heap st1))")
    case NoMem
    then have "debug_alloc st file line sz = Inl (alloc_failed file line sz)"
      by (simp add: debug_alloc_def malloc_enter_def malloc_def st1_def [symmetric] pl)
    with NoMem show ?thesis by (simp add: st1_def)
  next
    case (Fresh junk)
    define st2 where "st2 = st1\<lparr>heap := heap st1 @ [Some (map junk [0..<max sz 1])]\<rparr>"
    define st3 where "st3 = fst (debug_caller_loc st2 file line)"
    have d: "debug_alloc st file line sz = Inr (st3, Ptr (length (heap st1)))"
      using Fresh
      by (simp add: debug_alloc_def malloc_enter_def malloc_leave_def malloc_def
          st1_def [symmetric] pl st2_def st3_def)
    obtain zs where zs: "heap st3 = heap st2 @ zs"
      using debug_caller_loc_heap [of st2 "file" line] by (auto simp: st3_def)
    have "block st3 (length (heap st1)) = block st2 (length (heap st1))"
      by (rule block_append [OF _ zs]) (simp add: st2_def)
    also have "\<dots> = Some (map junk [0..<max sz 1])"
      by (simp add: block_def st2_def)
    finally have b3: "block st3 (length (heap st1)) = Some (map junk [0..<max sz 1])" .
    have b0: "block st (length (heap st1)) = None"
      by (simp add: block_def ys)
    from d Fresh b3 b0 show ?thesis by (simp add: st1_def)
  qed
qed

subsection \<open>debug_vstralloc\<close>

lemma debug_alloc_NoMem:
  assumes "platform st (length (heap (fst (debug_caller_loc st file line)))) = NoMem"
  shows "debug_alloc st file line sz = Inl (alloc_failed file line sz)"
  using assms by (simp add: debug_alloc_def malloc_enter_def malloc_def)

lemma debug_alloc_Fresh:
  assumes "platform st (length (heap (fst (debug_caller_loc st file line)))) = Fresh junk"
  shows "\<exists>st' ys zs. debug_alloc st file line sz = Inr (st', Ptr (length (heap st) + length ys)) \<and>
           heap (fst (debug_caller_loc st file line)) = heap st @ ys \<and>
           heap st' = heap st @ ys @ [Some (map junk [0..<max sz 1])] @ zs \<and>
           platform st' = platform st"
proof -
  define st1 where "st1 = fst (debug_caller_loc st file line)"
  obtain ys where ys: "heap st1 = heap st @ ys"
    using debug_caller_loc_heap [of st "file" line] by (auto simp: st1_def)
  have pl: "platform st1 = platform st" by (simp add: st1_def)
  define st2 where "st2 = st1\<lparr>heap := heap st1 @ [Some (map junk [0..<max sz 1])]\<rparr>"
  define st3 where "st3 = fst (debug_caller_loc st2 file line)"
  have d: "debug_alloc st file line sz = Inr (st3, Ptr (length (heap st1)))"
    using assms
    by (simp add: debug_alloc_def malloc_enter_def malloc_leave_def malloc_def
        st1_def [symmetric] pl st2_def st3_def)
  obtain zs where zs: "heap st3 = heap st2 @ zs"
    using debug_caller_loc_heap [of st2 "file" line] by (auto simp: st3_def)
  have "platform st3 = platform st" by (simp add: st3_def st2_def pl)
  with d ys zs show ?thesis by (auto simp: st2_def st1_def [symmetric])
qed

lemma debug_alloc_cases:
  obtains (Fatal) "debug_alloc st file line sz = Inl (alloc_failed file line sz)"
      "platform st (length (heap (fst (debug_caller_loc st file line)))) = NoMem"
  | (Ok) st' ys zs junk where "debug_alloc st file line sz = Inr (st', Ptr (length (heap st) + length ys))"
      "platform st (length (heap (fst (debug_caller_loc st file line)))) = Fresh junk"
      "heap (fst (debug_caller_loc st file line)) = heap st @ ys"
      "heap st' = heap st @ ys @ [Some (map junk [0..<max sz 1])] @ zs"
      "platform st' = platform st"
proof (cases "platform st (length (heap (fst (debug_caller_loc st file line))))")
  case NoMem
  then show ?thesis using debug_alloc_NoMem that(1) by blast
next
  case (Fresh junk)
  from debug_alloc_Fresh [OF this, of sz] that(2) Fresh show ?thesis by blast
qed

lemma store_ok:
  assumes "a < length (heap st)" "heap st ! a = Some b" "off + length bs \<le> length b"
  shows "store st (Ptr a) off bs =
           Inr (st\<lparr>heap := (heap st)[a := Some (take off b @ bs @ drop (off + length bs) b)]\<rparr>)"
  using assms by (simp add: store_def block_def)

lemma vstralloc_copy_ok:
  assumes "a < length (heap st)" "heap st ! a = Some b"
    and "\<forall>(s, l) \<in> set args. l = strlen s"
    and "off + sum_list (map snd args) \<le> length b"
  shows "vstralloc_copy st (Ptr a) off args =
           Inr (st\<lparr>heap := (heap st)[a := Some (take off b @ concat (map (\<lambda>(s, l). cstr s) args)
                  @ drop (off + sum_list (map snd args)) b)]\<rparr>, off + sum_list (map snd args))"
  using assms
proof (induction args arbitrary: st b off)
  case Nil
  have "st\<lparr>heap := (heap st)[a := Some b]\<rparr> = st"
    using Nil by (simp add: list_update_same_conv)
  then show ?case by simp
next
  case (Cons x args)
  obtain s l where x: "x = (s, l)" by (cases x)
  with Cons.prems have l: "l = strlen s" by simp
  have tk: "take l s = cstr s"
    unfolding l strlen_def cstr_def by (metis takeWhile_eq_take)
  have len: "length (cstr s) = l" by (simp add: l strlen_def)
  define b' where "b' = take off b @ cstr s @ drop (off + l) b"
  define st' where "st' = st\<lparr>heap := (heap st)[a := Some b']\<rparr>"
  have st: "store st (Ptr a) off (take l s) = Inr st'"
    unfolding tk using Cons.prems(1,2,4) store_ok [of a st b off "cstr s"]
    by (simp add: x len st'_def b'_def)
  have lb: "length b' = length b" using Cons.prems(4) by (simp add: x b'_def len)
  have ih: "vstralloc_copy st' (Ptr a) (off + l) args =
     Inr (st'\<lparr>heap := (heap st')[a := Some (take (off + l) b' @ concat (map (\<lambda>(s, l). cstr s) args)
        @ drop (off + l + sum_list (map snd args)) b')]\<rparr>, off + l + sum_list (map snd args))"
    apply (rule Cons.IH)
    using Cons.prems(1,3,4) by (auto simp: x st'_def lb)
  have t1: "take (off + l) b' = take off b @ cstr s"
    using Cons.prems(4) by (simp add: x b'_def len)
  have t2: "drop (off + (l + sum_list (map snd args))) b' = drop (off + (l + sum_list (map snd args))) b"
    using Cons.prems(4) by (simp add: x b'_def len ac_simps)
  have upd: "\<And>h. st'\<lparr>heap := h\<rparr> = st\<lparr>heap := h\<rparr>" by (simp add: st'_def)
  have hp: "heap st' = (heap st)[a := Some b']" by (simp add: st'_def)
  show ?case
    by (simp add: x st ih t1 t2 upd hp add.assoc)
qed

lemma vstralloc_args_eq:
  "vstralloc_args file line argp args tot =
     (if length (filter (\<lambda>s. strlen s \<noteq> 0) argp) = 0 \<or> length args + length (filter (\<lambda>s. strlen s \<noteq> 0) argp) \<le> MAX_VSTRALLOC_ARGS
      then Inr (args @ map (\<lambda>s. (s, strlen s)) (filter (\<lambda>s. strlen s \<noteq> 0) argp),
                tot + sum_list (map strlen argp))
      else Inl (too_many_args file line))"
  by (induction argp arbitrary: args tot) (auto simp: Let_def)

lemma sum_strlen_filter:
  "sum_list (map strlen (filter (\<lambda>s. 0 < strlen s) xs)) = sum_list (map strlen xs)"
  by (induction xs) auto

lemma concat_cstr_filter:
  "concat (map cstr (filter (\<lambda>s. 0 < strlen s) xs)) = concat (map cstr xs)"
  by (induction xs) (auto simp: strlen_def)

lemma length_concat_cstr: "length (concat (map cstr xs)) = sum_list (map strlen xs)"
  by (induction xs) (auto simp: strlen_def)

lemma internal_vstralloc_within_bound:
  assumes bound: "length (filter (\<lambda>x. strlen x \<noteq> 0) argp) < MAX_VSTRALLOC_ARGS"
  obtains (Fatal)
      "internal_vstralloc st file line (Some s) argp =
         Inl (alloc_failed file line (sum_list (map strlen (s # argp)) + 1))"
      "platform st (length (heap (fst (debug_caller_loc st file line)))) = NoMem"
  | (Ok) st' ys zs where
      "internal_vstralloc st file line (Some s) argp = Inr (st', Ptr (length (heap st) + length ys))"
      "platform st (length (heap (fst (debug_caller_loc st file line)))) \<noteq> NoMem"
      "heap st' = heap st @ ys @ [Some (concat (map cstr (s # argp)) @ [NUL])] @ zs"
      "platform st' = platform st"
proof -
  define ne where "ne = filter (\<lambda>x. strlen x \<noteq> 0) argp"
  define args where "args = (s, strlen s) # map (\<lambda>x. (x, strlen x)) ne"
  define tot where "tot = sum_list (map strlen (s # argp))"
  define body where "body = concat (map cstr (s # argp))"
  have va: "vstralloc_args file line argp [(s, strlen s)] (strlen s) = Inr (args, tot)"
    using bound by (simp add: vstralloc_args_eq args_def tot_def ne_def)
  have wf: "\<forall>(x, l) \<in> set args. l = strlen x"
    by (auto simp: args_def)
  have sm: "sum_list (map snd args) = tot"
    by (simp add: args_def tot_def ne_def comp_def sum_strlen_filter)
  have cc: "concat (map (\<lambda>(x, l). cstr x) args) = body"
    by (simp add: args_def body_def ne_def comp_def concat_cstr_filter)
  have lt: "length body = tot"
    unfolding body_def tot_def by (rule length_concat_cstr)
  show ?thesis
  proof (cases rule: debug_alloc_cases [of st "file" line "tot + 1"])
    case Fatal
    then have "internal_vstralloc st file line (Some s) argp = Inl (alloc_failed file line (tot + 1))"
      by (simp add: internal_vstralloc_def va)
    with Fatal that(1) show ?thesis by (simp add: tot_def)
  next
    case (Ok st1 ys zs junk)
    define a where "a = length (heap st) + length ys"
    define b where "b = map junk [0..<tot + 1]"
    have h1: "heap st1 = heap st @ ys @ [Some b] @ zs"
      using Ok(4) by (simp add: b_def)
    have a1: "a < length (heap st1)" by (simp add: h1 a_def)
    have n1: "heap st1 ! a = Some b" by (simp add: h1 a_def nth_append)
    have lb: "length b = tot + 1" by (simp add: b_def)
    define st2 where "st2 = st1\<lparr>heap := (heap st1)[a := Some (body @ drop tot b)]\<rparr>"
    have cp: "vstralloc_copy st1 (Ptr a) 0 args = Inr (st2, tot)"
      using vstralloc_copy_ok [OF a1 n1 wf, of 0] by (simp add: sm cc lb st2_def)
    have a2: "a < length (heap st2)" using a1 by (simp add: st2_def)
    have n2: "heap st2 ! a = Some (body @ drop tot b)" using a1 by (simp add: st2_def)
    define st3 where "st3 = st1\<lparr>heap := (heap st1)[a := Some (body @ [NUL])]\<rparr>"
    have s3: "store st2 (Ptr a) tot [NUL] = Inr st3"
      using store_ok [OF a2 n2, of tot "[NUL]"] by (simp add: lt lb st2_def st3_def)
    have r: "internal_vstralloc st file line (Some s) argp = Inr (st3, Ptr a)"
      using Ok(1) by (simp add: internal_vstralloc_def va a_def [symmetric] cp s3)
    have h3: "heap st3 = heap st @ ys @ [Some (body @ [NUL])] @ zs"
      by (simp add: st3_def h1 a_def list_update_append)
    have p3: "platform st3 = platform st" using Ok(5) by (simp add: st3_def)
    from Ok(2) have "platform st (length (heap (fst (debug_caller_loc st file line)))) \<noteq> NoMem"
      by simp
    with r h3 p3 that(2) show ?thesis by (simp add: a_def body_def)
  qed
qed

lemma debug_vstralloc_within_bound:
  assumes bound: "length (filter (\<lambda>x. strlen x \<noteq> 0) argp) < MAX_VSTRALLOC_ARGS"
  obtains (Fatal)
      "debug_vstralloc st file line (Some s) argp =
         Inl (alloc_failed file line (sum_list (map strlen (s # argp)) + 1))"
      "platform st (length (heap (fst (debug_caller_loc
          (fst (debug_caller_loc st file line)) file line)))) = NoMem"
  | (Ok) st' a where
      "debug_vstralloc st file line (Some s) argp = Inr (st', Ptr a)"
      "platform st (length (heap (fst (debug_caller_loc
          (fst (debug_caller_loc st file line)) file line)))) \<noteq> NoMem"
      "block st a = None"
      "block st' a = Some (concat (map cstr (s # argp)) @ [NUL])"
proof -
  define st1 where "st1 = fst (debug_caller_loc st file line)"
  obtain xs where xs: "heap st1 = heap st @ xs"
    using debug_caller_loc_heap [of st "file" line] by (auto simp: st1_def)
  have pl: "platform st1 = platform st" by (simp add: st1_def)
  show ?thesis
    using bound
  proof (cases rule: internal_vstralloc_within_bound [of argp st1 "file" line s])
    case Fatal
    then show ?thesis
      using that(1) by (simp add: debug_vstralloc_def malloc_enter_def st1_def [symmetric] pl)
  next
    case (Ok st2 ys zs)
    define a where "a = length (heap st1) + length ys"
    define st3 where "st3 = fst (debug_caller_loc st2 file line)"
    obtain ws where ws: "heap st3 = heap st2 @ ws"
      using debug_caller_loc_heap [of st2 "file" line] by (auto simp: st3_def)
    have r: "debug_vstralloc st file line (Some s) argp = Inr (st3, Ptr a)"
      using Ok(1)
      by (simp add: debug_vstralloc_def malloc_enter_def malloc_leave_def st1_def [symmetric]
          st3_def a_def)
    have b0: "block st a = None" by (simp add: block_def a_def xs)
    have b3: "block st3 a = Some (concat (map cstr (s # argp)) @ [NUL])"
      by (simp add: block_def ws Ok(3) a_def nth_append)
    from Ok(2) r b0 b3 that(2) show ?thesis by (simp add: pl st1_def)
  qed
qed

lemma debug_vstralloc_beyond_bound:
  assumes "MAX_VSTRALLOC_ARGS \<le> length (filter (\<lambda>x. strlen x \<noteq> 0) argp)"
  shows "debug_vstralloc st file line (Some s) argp = Inl (too_many_args file line)"
proof -
  have "vstralloc_args file line argp [(s, strlen s)] (strlen s) = Inl (too_many_args file line)"
    using assms by (auto simp: vstralloc_args_eq MAX_VSTRALLOC_ARGS_def)
  then show ?thesis
    by (simp add: debug_vstralloc_def internal_vstralloc_def)
qed

lemma too_many_args_neq: "alloc_failed file line n \<noteq> too_many_args file line"
  by (simp add: alloc_failed_def too_many_args_def)

text \<open>
  C4. For every non-null first argument \<open>s\<close> and every list of further arguments of
  which fewer than 32 are non-empty, \<^verbatim>\<open>debug_vstralloc\<close> returns a pointer to a region
  that was not allocated before the call and that holds the bytes of all the arguments,
  in argument order, followed by one terminating NUL byte; the length of the string is
  the sum of the lengths of the arguments, and empty arguments contribute nothing. The
  only other outcome is the fatal end of \<^verbatim>\<open>debug_alloc\<close>, when the platform allocator
  refuses the request.
\<close>

theorem debug_vstralloc_concat:
  assumes "length (filter (\<lambda>x. strlen x \<noteq> 0) argp) < MAX_VSTRALLOC_ARGS"
  shows "(\<exists>st' a.
            debug_vstralloc st file line (Some s) argp = Inr (st', Ptr a) \<and>
            platform st (length (heap (fst (debug_caller_loc
              (fst (debug_caller_loc st file line)) file line)))) \<noteq> NoMem \<and>
            block st a = None \<and>
            block st' a = Some (concat (map cstr (s # argp)) @ [NUL]) \<and>
            length (concat (map cstr (s # argp))) = sum_list (map strlen (s # argp)))
         \<or> (debug_vstralloc st file line (Some s) argp =
               Inl (alloc_failed file line (sum_list (map strlen (s # argp)) + 1)) \<and>
             platform st (length (heap (fst (debug_caller_loc
               (fst (debug_caller_loc st file line)) file line)))) = NoMem)"
  using assms
proof (cases rule: debug_vstralloc_within_bound [of argp st "file" line s])
  case Fatal
  then show ?thesis by simp
next
  case (Ok st' a)
  moreover have "length (concat (map cstr (s # argp))) = sum_list (map strlen (s # argp))"
    by (rule length_concat_cstr)
  ultimately show ?thesis by blast
qed

theorem debug_vstralloc_concat_witness:
  "length (filter (\<lambda>x. strlen x \<noteq> 0) [''cd'', ''ef'']) < MAX_VSTRALLOC_ARGS \<and>
   result_string (debug_vstralloc st_init ''a.c'' 1 (Some ''ab'') [''cd'', ''ef'']) = Some ''abcdef'' \<and>
   result_size (debug_vstralloc st_init ''a.c'' 1 (Some ''ab'') [''cd'', ''ef'']) = Some 7 \<and>
   length (filter (\<lambda>x. strlen x \<noteq> 0) ['''', '''']) < MAX_VSTRALLOC_ARGS \<and>
   result_string (debug_vstralloc st_init ''a.c'' 1 (Some '''') ['''', '''']) = Some '''' \<and>
   result_size (debug_vstralloc st_init ''a.c'' 1 (Some '''') ['''', '''']) = Some 1"
proof -
  have h1: "length (filter (\<lambda>x. strlen x \<noteq> 0) [''cd'', ''ef'']) < MAX_VSTRALLOC_ARGS"
    by (simp add: strlen_def cstr_def MAX_VSTRALLOC_ARGS_def)
  have h2: "length (filter (\<lambda>x. strlen x \<noteq> 0) ['''', '''']) < MAX_VSTRALLOC_ARGS"
    by (simp add: strlen_def cstr_def MAX_VSTRALLOC_ARGS_def)
  have p: "\<And>n. platform st_init n \<noteq> NoMem" by (simp add: st_init_def)
  from debug_vstralloc_concat [OF h1, of st_init "''a.c''" 1 "''ab''"] p
  have r1: "result_string (debug_vstralloc st_init ''a.c'' 1 (Some ''ab'') [''cd'', ''ef'']) = Some ''abcdef''"
       "result_size (debug_vstralloc st_init ''a.c'' 1 (Some ''ab'') [''cd'', ''ef'']) = Some 7"
    by (auto simp: result_string_def result_size_def cstr_def)
  from debug_vstralloc_concat [OF h2, of st_init "''a.c''" 1 "''''"] p
  have r2: "result_string (debug_vstralloc st_init ''a.c'' 1 (Some '''') ['''', '''']) = Some ''''"
       "result_size (debug_vstralloc st_init ''a.c'' 1 (Some '''') ['''', '''']) = Some 1"
    by (auto simp: result_string_def result_size_def cstr_def)
  from h1 h2 r1 r2 show ?thesis by simp
qed

text \<open>
  C5, as the code has it. \<^verbatim>\<open>debug_vstralloc\<close> ends in \<^verbatim>\<open>errordump\<close> with the message
  of the null check when the first argument is null; with a non-null first argument it
  ends with the message of the bound check exactly when 32 or more of the further
  arguments are non-empty (empty further arguments are skipped before the check and are
  not counted); below that it returns the concatenation of all its arguments, none
  dropped, unless the platform allocator refuses the request, which ends the call in the
  \<^verbatim>\<open>errordump\<close> of \<^verbatim>\<open>debug_alloc\<close>.
\<close>

theorem debug_vstralloc_fatal_cases:
  "debug_vstralloc st file line None argp = Inl (Fatal ''internal_vstralloc: str is NULL'') \<and>
   (debug_vstralloc st file line (Some s) argp = Inl (too_many_args file line)
      \<longleftrightarrow> MAX_VSTRALLOC_ARGS \<le> length (filter (\<lambda>x. strlen x \<noteq> 0) argp)) \<and>
   (length (filter (\<lambda>x. strlen x \<noteq> 0) argp) < MAX_VSTRALLOC_ARGS \<longrightarrow>
      (\<exists>st' a. debug_vstralloc st file line (Some s) argp = Inr (st', Ptr a) \<and>
          platform st (length (heap (fst (debug_caller_loc
            (fst (debug_caller_loc st file line)) file line)))) \<noteq> NoMem \<and>
          block st' a = Some (concat (map cstr (s # argp)) @ [NUL]))
      \<or> (debug_vstralloc st file line (Some s) argp =
            Inl (alloc_failed file line (sum_list (map strlen (s # argp)) + 1)) \<and>
          platform st (length (heap (fst (debug_caller_loc
            (fst (debug_caller_loc st file line)) file line)))) = NoMem))"
proof (intro conjI impI)
  show "debug_vstralloc st file line None argp = Inl (Fatal ''internal_vstralloc: str is NULL'')"
    by (simp add: debug_vstralloc_def internal_vstralloc_def)
next
  show "debug_vstralloc st file line (Some s) argp = Inl (too_many_args file line)
      \<longleftrightarrow> MAX_VSTRALLOC_ARGS \<le> length (filter (\<lambda>x. strlen x \<noteq> 0) argp)"
  proof (cases "MAX_VSTRALLOC_ARGS \<le> length (filter (\<lambda>x. strlen x \<noteq> 0) argp)")
    case True
    then show ?thesis using debug_vstralloc_beyond_bound by blast
  next
    case False
    then have b: "length (filter (\<lambda>x. strlen x \<noteq> 0) argp) < MAX_VSTRALLOC_ARGS" by simp
    have "debug_vstralloc st file line (Some s) argp \<noteq> Inl (too_many_args file line)"
      using b
      by (cases rule: debug_vstralloc_within_bound [of argp st "file" line s])
         (simp_all add: too_many_args_neq)
    with False show ?thesis by simp
  qed
next
  assume b: "length (filter (\<lambda>x. strlen x \<noteq> 0) argp) < MAX_VSTRALLOC_ARGS"
  show "(\<exists>st' a. debug_vstralloc st file line (Some s) argp = Inr (st', Ptr a) \<and>
          platform st (length (heap (fst (debug_caller_loc
            (fst (debug_caller_loc st file line)) file line)))) \<noteq> NoMem \<and>
          block st' a = Some (concat (map cstr (s # argp)) @ [NUL]))
      \<or> (debug_vstralloc st file line (Some s) argp =
            Inl (alloc_failed file line (sum_list (map strlen (s # argp)) + 1)) \<and>
          platform st (length (heap (fst (debug_caller_loc
            (fst (debug_caller_loc st file line)) file line)))) = NoMem)"
    using b by (cases rule: debug_vstralloc_within_bound [of argp st "file" line s]) auto
qed

lemma vstralloc_skips_empty:
  "result_string (debug_vstralloc st_init ''a.c'' 1 (Some ''a'') (replicate 32 '''')) = Some ''a''"
  by code_simp

lemma vstralloc_nomem:
  "debug_vstralloc st_nomem ''a.c'' 1 (Some ''a'') [''b''] = Inl (alloc_failed ''a.c'' 1 3)"
  by (simp add: debug_vstralloc_def internal_vstralloc_def debug_alloc_def malloc_enter_def
      debug_caller_loc_def caller_loc_def strrchr_def cstr_def strlen_def snprintf_def fmt_d_def
      dec.simps malloc_def st_nomem_def Let_def MAX_VSTRALLOC_ARGS_def numeral_3_eq_3)

theorem debug_vstralloc_fatal_cases_witness:
  "debug_vstralloc st_init ''a.c'' 1 None [''b''] = Inl (Fatal ''internal_vstralloc: str is NULL'') \<and>
   length (filter (\<lambda>x. strlen x \<noteq> 0) [''b'']) < MAX_VSTRALLOC_ARGS \<and>
   result_string (debug_vstralloc st_init ''a.c'' 1 (Some ''a'') [''b'']) = Some ''ab''"
proof -
  have h: "length (filter (\<lambda>x. strlen x \<noteq> 0) [''b'']) < MAX_VSTRALLOC_ARGS"
    by (simp add: strlen_def cstr_def MAX_VSTRALLOC_ARGS_def)
  have p: "\<And>n. platform st_init n \<noteq> NoMem" by (simp add: st_init_def)
  from debug_vstralloc_fatal_cases [of st_init "''a.c''" 1 "[''b'']" "''a''"] h p
  show ?thesis
    by (auto simp: result_string_def cstr_def)
qed

text \<open>
  C5 as stated fails in both directions. A call with 33 string arguments, the first
  \<^verbatim>\<open>"a"\<close> and 32 empty ones, returns \<^verbatim>\<open>"a"\<close> normally; a call with 2 arguments ends
  fatally when the platform allocator has no memory.
\<close>

theorem debug_vstralloc_fatal_counterexample:
  "length (''a'' # replicate 32 '''') = 33 \<and>
   result_string (debug_vstralloc st_init ''a.c'' 1 (Some ''a'') (replicate 32 '''')) = Some ''a'' \<and>
   length [''a'', ''b''] = 2 \<and>
   debug_vstralloc st_nomem ''a.c'' 1 (Some ''a'') [''b''] = Inl (alloc_failed ''a.c'' 1 3)"
  by (simp add: vstralloc_skips_empty vstralloc_nomem)

subsection \<open>Releasing a region\<close>

lemma free_ok:
  assumes "a < length (heap st)" "heap st ! a = Some b"
  shows "free st (Ptr a) = Inr (st\<lparr>heap := (heap st)[a := None]\<rparr>)"
  using assms by (simp add: free_def block_def release_def)

subsection \<open>debug_amtable_alloc\<close>

lemma load_ok:
  assumes "a < length (heap st)" "heap st ! a = Some b" "off + n \<le> length b"
  shows "load st (Ptr a) off n = Inr (take n (drop off b))"
  using assms by (simp add: load_def block_def)

lemma size_t_nat: "0 \<le> i \<Longrightarrow> nat i < 2 ^ 64 \<Longrightarrow> size_t i = nat i"
  by (simp add: size_t_def nat_less_iff)

lemma add_sz_small: "a + b < 2 ^ 64 \<Longrightarrow> add_sz a b = a + b"
  by (simp add: add_sz_def)

lemma mul_sz_small: "a * b < 2 ^ 64 \<Longrightarrow> mul_sz a b = a * b"
  by (simp add: mul_sz_def)

lemma sub_sz_small: "b \<le> a \<Longrightarrow> a < 2 ^ 64 \<Longrightarrow> sub_sz a b = a - b"
  by (simp add: sub_sz_def size_t_def nat_less_iff of_nat_diff flip: of_nat_diff)

lemma init_slots_length:
  assumes "\<forall>off w el. length el = elsize \<longrightarrow> length (snd (f off w el)) = elsize"
  shows "length (fst (init_slots f elsize js w)) = length js * elsize"
proof (induction js arbitrary: w)
  case Nil
  show ?case by simp
next
  case (Cons i js)
  obtain w' el where f: "f (i * elsize) w (replicate elsize NUL) = (w', el)"
    by (cases "f (i * elsize) w (replicate elsize NUL)")
  have "length el = elsize" using assms f
    by (metis length_replicate snd_conv)
  with Cons [of w'] f show ?case
    by (auto split: prod.split)
qed

lemma amtable_init_ok:
  assumes wf: "\<forall>off w el. length el = elsize \<longrightarrow> length (snd (f off w el)) = elsize"
    and a: "a < length (heap st)"
    and fits: "n * elsize < 2 ^ 64"
  shows "i \<le> n \<Longrightarrow> heap st ! a = Some (P @ replicate ((n - i) * elsize) NUL) \<Longrightarrow>
         length P = i * elsize \<Longrightarrow>
         amtable_init f st (Ptr a) elsize i n w =
           Inr (st\<lparr>heap := (heap st)[a := Some (P @ fst (init_slots f elsize [i..<n] w))]\<rparr>,
                snd (init_slots f elsize [i..<n] w))"
  using a
proof (induction "n - i" arbitrary: i st P w)
  case 0
  then have "i = n" by simp
  with 0 have "st\<lparr>heap := (heap st)[a := Some P]\<rparr> = st"
    by (simp add: list_update_same_conv)
  with \<open>i = n\<close> show ?case
    by (simp add: amtable_init.simps)
next
  case (Suc k)
  then have lt: "i < n" by simp
  have ie: "i * elsize + elsize \<le> n * elsize"
    using lt by (metis Suc_leI mult_Suc mult_le_mono1 add.commute)
  then have m: "mul_sz i elsize = i * elsize"
    using fits by (simp add: mul_sz_small)
  define b where "b = P @ replicate ((n - i) * elsize) NUL"
  have lb: "length b = n * elsize"
    using Suc.prems(1,3) by (simp add: b_def flip: add_mult_distrib)
  have nk: "(n - i) * elsize = elsize + (n - Suc i) * elsize"
    using lt by (metis Suc_diff_Suc mult_Suc)
  have ld: "load st (Ptr a) (i * elsize) elsize = Inr (replicate elsize NUL)"
    using load_ok [OF Suc.prems(4), of b "i * elsize" elsize] Suc.prems(2,3) ie
    by (simp add: b_def [symmetric] lb) (simp add: b_def nk replicate_add)
  obtain w' el where f: "f (i * elsize) w (replicate elsize NUL) = (w', el)"
    by (cases "f (i * elsize) w (replicate elsize NUL)")
  have le: "length el = elsize" using wf f
    by (metis length_replicate snd_conv)
  define P' where "P' = P @ el"
  define st' where "st' = st\<lparr>heap := (heap st)[a := Some (P' @ replicate ((n - Suc i) * elsize) NUL)]\<rparr>"
  have so: "store st (Ptr a) (i * elsize) el = Inr st'"
    using store_ok [OF Suc.prems(4), of b "i * elsize" el] Suc.prems(2,3) ie
    by (simp add: b_def [symmetric] lb le) (simp add: b_def nk replicate_add st'_def P'_def le)
  have ih: "amtable_init f st' (Ptr a) elsize (Suc i) n w' =
      Inr (st'\<lparr>heap := (heap st')[a := Some (P' @ fst (init_slots f elsize [Suc i..<n] w'))]\<rparr>,
           snd (init_slots f elsize [Suc i..<n] w'))"
    apply (rule Suc.hyps(1))
    using Suc.hyps(2) lt Suc.prems(3,4) by (simp_all add: st'_def P'_def le)
  have upd: "\<And>h. st'\<lparr>heap := h\<rparr> = st\<lparr>heap := h\<rparr>" by (simp add: st'_def)
  have hp: "heap st' = (heap st)[a := Some (P' @ replicate ((n - Suc i) * elsize) NUL)]"
    by (simp add: st'_def)
  have u: "[i..<n] = i # [Suc i..<n]" using lt by (simp add: upt_conv_Cons)
  show ?case
    apply (subst amtable_init.simps)
    apply (simp add: lt m ld f so ih upd hp u P'_def split: prod.split)
    done
qed

lemma round_up_bounds:
  fixes b :: nat
  assumes "0 < b"
  shows "(c div b + 1) * b \<le> c + b" and "c < (c div b + 1) * b"
proof -
  have e: "c div b * b + c mod b = c" by simp
  have m: "c mod b < b" using assms by simp
  have "c div b * b \<le> c" by simp
  then show "(c div b + 1) * b \<le> c + b" by (simp add: add_mult_distrib)
  from e m have "c < c div b * b + b" by linarith
  then show "c < (c div b + 1) * b" by (simp add: add_mult_distrib)
qed

lemma table_count_new_eq:
  assumes "0 < bump" "count + nat bump < 2 ^ 64"
  shows "size_t bump = nat bump"
    and "mul_sz (add_sz count (size_t bump) div size_t bump) (size_t bump)
           = (count div nat bump + 1) * nat bump"
proof -
  have b: "0 < nat bump" using assms by simp
  show s: "size_t bump = nat bump"
    using assms by (intro size_t_nat) simp_all
  have "add_sz count (nat bump) div nat bump = count div nat bump + 1"
    using assms b by (simp add: add_sz_small div_add_self2)
  moreover have "(count div nat bump + 1) * nat bump < 2 ^ 64"
    using round_up_bounds(1) [OF b, of count] assms(2) by linarith
  ultimately show "mul_sz (add_sz count (size_t bump) div size_t bump) (size_t bump)
           = (count div nat bump + 1) * nat bump"
    by (simp add: s mul_sz_small)
qed

lemma debug_amtable_alloc_grows:
  fixes init_func :: "(nat \<Rightarrow> 'w \<Rightarrow> string \<Rightarrow> 'w \<times> string) option"
  assumes grow: "current \<le> count"
    and bump: "0 < bump" "count + nat bump < 2 ^ 64"
    and new: "new = (count div nat bump + 1) * nat bump"
    and fits: "new * elsize < 2 ^ 64"
    and el: "0 < elsize"
    and tbl: "table = Null \<or>
              (\<exists>a old. table = Ptr a \<and> block st a = Some old \<and> current * elsize \<le> length old)"
    and init: "\<forall>f. init_func = Some f \<longrightarrow>
                 (\<forall>off w el. length el = elsize \<longrightarrow> length (snd (f off w el)) = elsize)"
  obtains (Fatal)
      "debug_amtable_alloc st file line table current elsize count bump init_func w =
         Inl (alloc_failed file line (new * elsize))"
      "platform st (length (heap (fst (debug_caller_loc st file line)))) = NoMem"
  | (Ok) st' a' pre where
      "debug_amtable_alloc st file line table current elsize count bump init_func w =
         Inr (st', Ptr a', new, snd (new_slots init_func elsize current new w))"
      "platform st (length (heap (fst (debug_caller_loc st file line)))) \<noteq> NoMem"
      "block st a' = None"
      "block st' a' = Some (pre @ fst (new_slots init_func elsize current new w))"
      "length pre = current * elsize"
      "\<forall>a old. table = Ptr a \<and> block st a = Some old \<longrightarrow>
         pre = take (current * elsize) old \<and> block st' a = None"
proof -
  have b: "0 < nat bump" using bump by simp
  have sb: "size_t bump = nat bump" and tcn:
    "mul_sz (add_sz count (size_t bump) div size_t bump) (size_t bump) = new"
    using table_count_new_eq [OF bump] by (simp_all add: new)
  have tcn': "mul_sz (add_sz count (nat bump) div nat bump) (nat bump) = new"
    using tcn by (simp add: sb)
  have cn: "count < new" using round_up_bounds(2) [OF b, of count] by (simp add: new)
  then have cur: "current < new" using grow by simp
  have n64: "new < 2 ^ 64"
    using fits el by (metis le_less_trans mult.right_neutral mult_le_mono2 Suc_leI One_nat_def)
  have ce: "current * elsize \<le> new * elsize" using cur by simp
  have m1: "mul_sz new elsize = new * elsize" using fits by (simp add: mul_sz_small)
  have c64: "current * elsize < 2 ^ 64" using ce fits by (rule le_less_trans)
  have m2: "mul_sz current elsize = current * elsize"
    using c64 by (rule mul_sz_small)
  have m3: "mul_sz (sub_sz new current) elsize = (new - current) * elsize"
    using cur n64 fits by (simp add: sub_sz_small mul_sz_def diff_mult_distrib)
  have np: "0 < new * elsize" using cur el by simp
  then have "1 \<le> new * elsize" by linarith
  then have "max (new * elsize) 1 = new * elsize" by (rule max_absorb1)
  then have pos: "max (new * elsize) (Suc 0) = new * elsize" by simp
  have sum: "current * elsize + (new - current) * elsize = new * elsize"
    using cur by (simp flip: add_mult_distrib)
  have unf: "debug_amtable_alloc st file line table current elsize count bump init_func w =
      (case debug_alloc st file line (new * elsize) of
         Inl e \<Rightarrow> Inl e
       | Inr (st1, table_new) \<Rightarrow>
           (case (if table \<noteq> Null
                  then (case load st1 table 0 (current * elsize) of
                          Inl e \<Rightarrow> Inl e
                        | Inr bytes \<Rightarrow>
                            (case store st1 table_new 0 bytes of
                               Inl e \<Rightarrow> Inl e
                             | Inr st2 \<Rightarrow> free st2 table))
                  else Inr st1) of
              Inl e \<Rightarrow> Inl e
            | Inr st3 \<Rightarrow>
                (case store st3 table_new (current * elsize)
                        (replicate ((new - current) * elsize) NUL) of
                   Inl e \<Rightarrow> Inl e
                 | Inr st4 \<Rightarrow>
                     (case init_func of
                        None \<Rightarrow> Inr (st4, table_new, new, w)
                      | Some f \<Rightarrow>
                          (case amtable_init f st4 table_new elsize current new w of
                             Inl e \<Rightarrow> Inl e
                           | Inr (st5, w') \<Rightarrow> Inr (st5, table_new, new, w'))))))"
    unfolding debug_amtable_alloc_def Let_def sb tcn' m1 m2 m3 using grow b by simp
  show ?thesis
  proof (cases rule: debug_alloc_cases [of st "file" line "new * elsize"])
    case Fatal
    then show ?thesis using that(1) by (simp add: unf)
  next
    case (Ok st1 ys zs junk)
    define a' where "a' = length (heap st) + length ys"
    define jb where "jb = map junk [0..<new * elsize]"
    have ljb: "length jb = new * elsize" by (simp add: jb_def)
    have h1: "heap st1 = heap st @ ys @ [Some jb] @ zs"
      using Ok(4) by (simp add: jb_def pos)
    have a1: "a' < length (heap st1)" by (simp add: h1 a'_def)
    have n1: "heap st1 ! a' = Some jb" by (simp add: h1 a'_def nth_append)
    have fresh: "block st a' = None" by (simp add: block_def a'_def)
    obtain st3 pre where
      copy: "(if table \<noteq> Null
              then (case load st1 table 0 (current * elsize) of
                      Inl e \<Rightarrow> Inl e
                    | Inr bytes \<Rightarrow>
                        (case store st1 (Ptr a') 0 bytes of
                           Inl e \<Rightarrow> Inl e
                         | Inr st2 \<Rightarrow> free st2 table))
              else Inr st1) = Inr st3"
      and a3: "a' < length (heap st3)"
      and n3: "heap st3 ! a' = Some (pre @ drop (current * elsize) jb)"
      and lp: "length pre = current * elsize"
      and old: "\<forall>a old. table = Ptr a \<and> block st a = Some old \<longrightarrow>
                 pre = take (current * elsize) old \<and> a < length (heap st3) \<and>
                 heap st3 ! a = None \<and> a \<noteq> a'"
    proof (cases table)
      case Null
      show ?thesis
      proof (rule that [of st1 "take (current * elsize) jb"])
        show "length (take (current * elsize) jb) = current * elsize"
          using ce by (simp add: ljb)
      qed (simp_all add: Null a1 n1)
    next
      case (Ptr a)
      with tbl obtain old where o: "block st a = Some old" "current * elsize \<le> length old"
        by auto
      then have al: "a < length (heap st)" and an: "heap st ! a = Some old"
        by (simp_all add: block_def split: if_splits)
      have a1o: "a < length (heap st1)" using al by (simp add: h1)
      have n1o: "heap st1 ! a = Some old" using al an by (simp add: h1 nth_append)
      have ne: "a \<noteq> a'" using al by (simp add: a'_def)
      define bytes where "bytes = take (current * elsize) old"
      have lby: "length bytes = current * elsize" using o(2) by (simp add: bytes_def)
      have ld: "load st1 (Ptr a) 0 (current * elsize) = Inr bytes"
        using load_ok [OF a1o n1o, of 0 "current * elsize"] o(2) by (simp add: bytes_def)
      define st2 where
        "st2 = st1\<lparr>heap := (heap st1)[a' := Some (bytes @ drop (current * elsize) jb)]\<rparr>"
      have so: "store st1 (Ptr a') 0 bytes = Inr st2"
        using store_ok [OF a1 n1, of 0 bytes] ce by (simp add: lby ljb st2_def)
      have a2o: "a < length (heap st2)" using a1o by (simp add: st2_def)
      have n2o: "heap st2 ! a = Some old" using n1o ne by (simp add: st2_def)
      define st3 where "st3 = st2\<lparr>heap := (heap st2)[a := None]\<rparr>"
      have fr: "free st2 (Ptr a) = Inr st3"
        using free_ok [OF a2o n2o] by (simp add: st3_def)
      show ?thesis
      proof (rule that [of st3 bytes])
        show "(if table \<noteq> Null
              then (case load st1 table 0 (current * elsize) of
                      Inl e \<Rightarrow> Inl e
                    | Inr bytes \<Rightarrow>
                        (case store st1 (Ptr a') 0 bytes of
                           Inl e \<Rightarrow> Inl e
                         | Inr st2 \<Rightarrow> free st2 table))
              else Inr st1) = Inr st3"
          by (simp add: Ptr ld so fr)
        show "a' < length (heap st3)" using a1 by (simp add: st3_def st2_def)
        show "heap st3 ! a' = Some (bytes @ drop (current * elsize) jb)"
          using a1 ne by (simp add: st3_def st2_def)
        show "length bytes = current * elsize" by (rule lby)
        show "\<forall>a old. table = Ptr a \<and> block st a = Some old \<longrightarrow>
                 bytes = take (current * elsize) old \<and> a < length (heap st3) \<and>
                 heap st3 ! a = None \<and> a \<noteq> a'"
          using o(1) a1o ne by (auto simp: Ptr bytes_def st3_def st2_def)
      qed
    qed
    define zeros where "zeros = replicate ((new - current) * elsize) NUL"
    define st4 where "st4 = st3\<lparr>heap := (heap st3)[a' := Some (pre @ zeros)]\<rparr>"
    define b3 where "b3 = pre @ drop (current * elsize) jb"
    have l3: "length b3 = new * elsize" using ce by (simp add: b3_def lp ljb)
    have lz: "current * elsize + length zeros = new * elsize" using sum by (simp add: zeros_def)
    have t3: "take (current * elsize) b3 = pre" by (simp add: b3_def lp)
    have d3: "drop (current * elsize + length zeros) b3 = []" by (simp only: lz l3 drop_all order_refl)
    have n3': "heap st3 ! a' = Some b3" using n3 by (simp add: b3_def)
    have "current * elsize + length zeros \<le> length b3" by (simp only: lz l3 order_refl)
    then have "store st3 (Ptr a') (current * elsize) zeros =
        Inr (st3\<lparr>heap := (heap st3)[a' := Some (take (current * elsize) b3 @ zeros
               @ drop (current * elsize + length zeros) b3)]\<rparr>)"
      by (rule store_ok [OF a3 n3'])
    then have ms: "store st3 (Ptr a') (current * elsize) zeros = Inr st4"
      unfolding t3 d3 st4_def by simp
    have a4: "a' < length (heap st4)" using a3 by (simp add: st4_def)
    have n4: "heap st4 ! a' = Some (pre @ replicate ((new - current) * elsize) NUL)"
      using a3 by (simp add: st4_def zeros_def)
    obtain st5 where
      fin: "(case init_func of
               None \<Rightarrow> Inr (st4, Ptr a', new, w)
             | Some f \<Rightarrow>
                 (case amtable_init f st4 (Ptr a') elsize current new w of
                    Inl e \<Rightarrow> Inl e
                  | Inr (st5, w') \<Rightarrow> Inr (st5, Ptr a', new, w'))) =
            Inr (st5, Ptr a', new, snd (new_slots init_func elsize current new w))"
      and h5: "heap st5 = (heap st4)[a' := Some (pre @ fst (new_slots init_func elsize current new w))]"
    proof (cases init_func)
      case None
      have "(heap st4)[a' := Some (pre @ replicate ((new - current) * elsize) NUL)] = heap st4"
        using a4 n4 by (simp add: list_update_same_conv)
      then show ?thesis
        by (intro that [of st4]) (simp_all add: None new_slots_def)
    next
      case (Some f)
      with init have wf: "\<forall>off w el. length el = elsize \<longrightarrow> length (snd (f off w el)) = elsize"
        by simp
      have le: "current \<le> new" using cur by simp
      note ai = amtable_init_ok [OF wf a4 fits le n4 lp, of w]
      show ?thesis
        by (rule that [of "st4\<lparr>heap := (heap st4)
              [a' := Some (pre @ fst (init_slots f elsize [current..<new] w))]\<rparr>"])
           (simp_all add: Some new_slots_def ai)
    qed
    have r: "debug_amtable_alloc st file line table current elsize count bump init_func w =
         Inr (st5, Ptr a', new, snd (new_slots init_func elsize current new w))"
      using Ok(1) by (simp add: unf a'_def [symmetric] copy ms [unfolded zeros_def] fin)
    have b5: "block st5 a' = Some (pre @ fst (new_slots init_func elsize current new w))"
      using a4 by (simp add: block_def h5)
    have o5: "\<forall>a old. table = Ptr a \<and> block st a = Some old \<longrightarrow>
         pre = take (current * elsize) old \<and> block st5 a = None"
      using old by (auto simp: block_def h5 st4_def)
    from Ok(2) have pn: "platform st (length (heap (fst (debug_caller_loc st file line)))) \<noteq> NoMem"
      by simp
    from r pn fresh b5 lp o5 show ?thesis by (rule that(2))
  qed
qed

lemma debug_amtable_alloc_Inr_capacity:
  assumes "debug_amtable_alloc st file line table current elsize count bump init_func w =
             Inr (st', table', current', w')"
    and "current \<le> count"
  shows "current' = mul_sz (add_sz count (size_t bump) div size_t bump) (size_t bump)"
  using assms unfolding debug_amtable_alloc_def Let_def
  by (simp split: sum.splits prod.splits option.splits if_splits)

text \<open>
  C2, as the code has it. Whenever \<^verbatim>\<open>debug_amtable_alloc\<close> grows a table (the desired
  count is at least the current capacity) with a positive \<open>bump\<close>, and \<open>count + bump\<close>
  does not overflow \<^verbatim>\<open>size_t\<close>, the capacity it sets is
  \<open>(count div bump + 1) * bump\<close>: the smallest multiple of \<open>bump\<close> that is strictly
  greater than the desired count. The call does set it, unless the platform allocator
  refuses the request, when the element size is positive, the new size does not overflow,
  the table is null and empty or a live region that holds the current elements, and the
  initialisation function writes its element.
\<close>

theorem debug_amtable_alloc_capacity:
  fixes init_func :: "(nat \<Rightarrow> 'w \<Rightarrow> string \<Rightarrow> 'w \<times> string) option"
  assumes "current \<le> count" "0 < bump" "count + nat bump < 2 ^ 64"
    and "new = (count div nat bump + 1) * nat bump"
  shows "(\<forall>st' table' current' w'.
            debug_amtable_alloc st file line table current elsize count bump init_func w =
              Inr (st', table', current', w') \<longrightarrow> current' = new) \<and>
         nat bump dvd new \<and> count < new \<and>
         (\<forall>m. nat bump dvd m \<and> count < m \<longrightarrow> new \<le> m) \<and>
         (new * elsize < 2 ^ 64 \<and> 0 < elsize \<and>
          table_bytes st table = Some old \<and> current * elsize \<le> length old \<and>
          (\<forall>f. init_func = Some f \<longrightarrow>
             (\<forall>off v el. length el = elsize \<longrightarrow> length (snd (f off v el)) = elsize)) \<longrightarrow>
            (\<exists>st' a' w'.
                debug_amtable_alloc st file line table current elsize count bump init_func w =
                  Inr (st', Ptr a', new, w') \<and>
                platform st (length (heap (fst (debug_caller_loc st file line)))) \<noteq> NoMem)
            \<or> (debug_amtable_alloc st file line table current elsize count bump init_func w =
                  Inl (alloc_failed file line (new * elsize)) \<and>
                platform st (length (heap (fst (debug_caller_loc st file line)))) = NoMem))"
proof (intro conjI allI impI)
  have b: "0 < nat bump" using assms(2) by simp
  fix st' table' current' w'
  assume r: "debug_amtable_alloc st file line table current elsize count bump init_func w =
              Inr (st', table', current', w')"
  show "current' = new"
    using debug_amtable_alloc_Inr_capacity [OF r assms(1)] table_count_new_eq(2) [OF assms(2,3)]
    by (simp add: assms(4))
next
  show "nat bump dvd new" by (simp add: assms(4))
next
  have b: "0 < nat bump" using assms(2) by simp
  show "count < new" using round_up_bounds(2) [OF b, of count] by (simp add: assms(4))
next
  fix m
  assume m: "nat bump dvd m \<and> count < m"
  have b: "0 < nat bump" using assms(2) by simp
  from m obtain k where k: "m = nat bump * k" by (auto simp: dvd_def)
  have "count div nat bump < k"
    using m b unfolding k by (simp add: div_less_iff_less_mult mult.commute)
  then have "count div nat bump + 1 \<le> k" by simp
  then have "(count div nat bump + 1) * nat bump \<le> k * nat bump" by (rule mult_le_mono1)
  then show "new \<le> m" by (simp add: assms(4) k mult.commute)
next
  assume h: "new * elsize < 2 ^ 64 \<and> 0 < elsize \<and>
          table_bytes st table = Some old \<and> current * elsize \<le> length old \<and>
          (\<forall>f. init_func = Some f \<longrightarrow>
             (\<forall>off v el. length el = elsize \<longrightarrow> length (snd (f off v el)) = elsize))"
  then have f: "new * elsize < 2 ^ 64" and e: "0 < elsize"
    and i: "\<forall>f. init_func = Some f \<longrightarrow>
             (\<forall>off v el. length el = elsize \<longrightarrow> length (snd (f off v el)) = elsize)"
    by blast+
  from h have tbl: "table = Null \<or>
      (\<exists>a old. table = Ptr a \<and> block st a = Some old \<and> current * elsize \<le> length old)"
    by (cases table) (auto simp: table_bytes_def)
  show "(\<exists>st' a' w'.
                debug_amtable_alloc st file line table current elsize count bump init_func w =
                  Inr (st', Ptr a', new, w') \<and>
                platform st (length (heap (fst (debug_caller_loc st file line)))) \<noteq> NoMem)
            \<or> (debug_amtable_alloc st file line table current elsize count bump init_func w =
                  Inl (alloc_failed file line (new * elsize)) \<and>
                platform st (length (heap (fst (debug_caller_loc st file line)))) = NoMem)"
  proof (rule debug_amtable_alloc_grows [OF assms(1,2,3,4) f e tbl i, of "file" line w])
    assume "debug_amtable_alloc st file line table current elsize count bump init_func w =
         Inl (alloc_failed file line (new * elsize))"
      "platform st (length (heap (fst (debug_caller_loc st file line)))) = NoMem"
    then show ?thesis by simp
  next
    fix st' a' pre
    assume "debug_amtable_alloc st file line table current elsize count bump init_func w =
         Inr (st', Ptr a', new, snd (new_slots init_func elsize current new w))"
      "platform st (length (heap (fst (debug_caller_loc st file line)))) \<noteq> NoMem"
    then show ?thesis by blast
  qed
qed

lemma amtable_example:
  "new_capacity (debug_amtable_alloc st_init ''a.c'' 1 Null 0 4 8 8 None ()) = Some 16"
  by (rule debug_amtable_alloc_grows [of 0 8 8 16 4 Null st_init None "''a.c''" 1 "()"])
     (simp_all add: new_capacity_def st_init_def)

text \<open>
  C2 as stated fails when the desired count is a multiple of \<open>bump\<close>: for a desired
  count of 8 and a bump of 8 the call sets the capacity to 16, and 8 itself is a multiple
  of 8 that is not below the desired count.
\<close>

theorem debug_amtable_alloc_capacity_counterexample:
  "new_capacity (debug_amtable_alloc st_init ''a.c'' 1 Null 0 4 8 8 None ()) = Some 16 \<and>
   (8::nat) mod 8 = 0 \<and> (8::nat) \<ge> 8 \<and> (8::nat) < 16"
  by (simp add: amtable_example)

theorem debug_amtable_alloc_capacity_witness:
  "(0::nat) \<le> 8 \<and> (0::int) < 8 \<and> (8::nat) + nat 8 < 2 ^ 64 \<and>
   (16::nat) = (8 div nat 8 + 1) * nat 8 \<and>
   table_bytes st_init Null = Some [] \<and>
   new_capacity (debug_amtable_alloc st_init ''a.c'' 1 Null 0 4 8 8 None ()) = Some 16"
proof -
  have h: "(0::nat) \<le> 8" "(0::int) < 8" "(8::nat) + nat 8 < 2 ^ 64"
    "(16::nat) = (8 div nat 8 + 1) * nat 8"
    by simp_all
  have tb: "table_bytes st_init Null = Some []" by (simp add: table_bytes_def)
  have p: "\<And>n. platform st_init n \<noteq> NoMem" by (simp add: st_init_def)
  note t = debug_amtable_alloc_capacity [OF h, of st_init "''a.c''" 1 Null 4 None "()" "[]",
      THEN conjunct2, THEN conjunct2, THEN conjunct2, THEN conjunct2, THEN mp]
  have hy: "(16::nat) * 4 < 2 ^ 64 \<and> (0::nat) < 4 \<and>
      table_bytes st_init Null = Some [] \<and> 0 * 4 \<le> length ([] :: string) \<and>
      (\<forall>f. (None :: (nat \<Rightarrow> unit \<Rightarrow> string \<Rightarrow> unit \<times> string) option) = Some f \<longrightarrow>
         (\<forall>off v el. length el = 4 \<longrightarrow> length (snd (f off v el)) = 4))"
    using tb by simp
  have pn: "platform st_init (length (heap (fst (debug_caller_loc st_init ''a.c'' 1)))) \<noteq> NoMem"
    by (rule p)
  from t [OF hy] pn have "\<exists>st' a' w'.
      debug_amtable_alloc st_init ''a.c'' 1 Null 0 4 8 8 None () = Inr (st', Ptr a', 16, w')"
    by blast
  then have "new_capacity (debug_amtable_alloc st_init ''a.c'' 1 Null 0 4 8 8 None ()) = Some 16"
    by (auto simp: new_capacity_def)
  with tb show ?thesis by simp
qed

text \<open>
  C8, as the code has it. A call of \<^verbatim>\<open>debug_amtable_alloc\<close> with a desired count below
  the current capacity returns with the state, the table and the capacity unchanged. A
  call that grows a table, when \<open>bump\<close> and the element size are positive, neither
  \<open>count + bump\<close> nor the size in bytes of the new table overflows \<^verbatim>\<open>size_t\<close>, the table is
  null and empty or a live region that holds the current elements, and the initialisation
  function leaves an element of the same size, returns a region that was not
  allocated before: its first \<open>current * elsize\<close> bytes are those of the old table, at
  the same offsets, and the old region is released; the bytes after them are the new slots,
  all zero when there is no initialisation function, and otherwise what the initialisation
  function leaves when it is called on each new slot, zero-filled before, once and in
  ascending order of the index. The only other outcome is the fatal end of
  \<^verbatim>\<open>debug_alloc\<close>, when the platform allocator refuses the request.
\<close>

theorem debug_amtable_alloc_preserves:
  fixes init_func :: "(nat \<Rightarrow> 'w \<Rightarrow> string \<Rightarrow> 'w \<times> string) option"
  shows
  "(count < current \<longrightarrow>
      debug_amtable_alloc st file line table current elsize count bump init_func w =
        Inr (st, table, current, w)) \<and>
   (current \<le> count \<and> 0 < bump \<and> count + nat bump < 2 ^ 64 \<and>
    new = (count div nat bump + 1) * nat bump \<and> new * elsize < 2 ^ 64 \<and> 0 < elsize \<and>
    table_bytes st table = Some old \<and> current * elsize \<le> length old \<and>
    (\<forall>f. init_func = Some f \<longrightarrow>
       (\<forall>off v el. length el = elsize \<longrightarrow> length (snd (f off v el)) = elsize)) \<longrightarrow>
      (\<exists>st' a'.
          debug_amtable_alloc st file line table current elsize count bump init_func w =
            Inr (st', Ptr a', new, snd (new_slots init_func elsize current new w)) \<and>
          platform st (length (heap (fst (debug_caller_loc st file line)))) \<noteq> NoMem \<and>
          block st a' = None \<and>
          block st' a' =
            Some (take (current * elsize) old @ fst (new_slots init_func elsize current new w)) \<and>
          (\<forall>a. table = Ptr a \<longrightarrow> block st' a = None))
      \<or> (debug_amtable_alloc st file line table current elsize count bump init_func w =
            Inl (alloc_failed file line (new * elsize)) \<and>
          platform st (length (heap (fst (debug_caller_loc st file line)))) = NoMem))"
proof (intro conjI impI)
  assume "count < current"
  then show "debug_amtable_alloc st file line table current elsize count bump init_func w =
        Inr (st, table, current, w)"
    by (simp add: debug_amtable_alloc_def)
next
  assume h: "current \<le> count \<and> 0 < bump \<and> count + nat bump < 2 ^ 64 \<and>
    new = (count div nat bump + 1) * nat bump \<and> new * elsize < 2 ^ 64 \<and> 0 < elsize \<and>
    table_bytes st table = Some old \<and> current * elsize \<le> length old \<and>
    (\<forall>f. init_func = Some f \<longrightarrow>
       (\<forall>off v el. length el = elsize \<longrightarrow> length (snd (f off v el)) = elsize))"
  then have tbl: "table = Null \<or>
      (\<exists>a old. table = Ptr a \<and> block st a = Some old \<and> current * elsize \<le> length old)"
    by (cases table) (auto simp: table_bytes_def)
  from h have g: "current \<le> count" and b1: "0 < bump" and b2: "count + nat bump < 2 ^ 64"
    and n: "new = (count div nat bump + 1) * nat bump" and f: "new * elsize < 2 ^ 64"
    and e: "0 < elsize"
    and i: "\<forall>f. init_func = Some f \<longrightarrow>
       (\<forall>off v el. length el = elsize \<longrightarrow> length (snd (f off v el)) = elsize)"
    by blast+
  show "(\<exists>st' a'.
          debug_amtable_alloc st file line table current elsize count bump init_func w =
            Inr (st', Ptr a', new, snd (new_slots init_func elsize current new w)) \<and>
          platform st (length (heap (fst (debug_caller_loc st file line)))) \<noteq> NoMem \<and>
          block st a' = None \<and>
          block st' a' =
            Some (take (current * elsize) old @ fst (new_slots init_func elsize current new w)) \<and>
          (\<forall>a. table = Ptr a \<longrightarrow> block st' a = None))
      \<or> (debug_amtable_alloc st file line table current elsize count bump init_func w =
            Inl (alloc_failed file line (new * elsize)) \<and>
          platform st (length (heap (fst (debug_caller_loc st file line)))) = NoMem)"
  proof (rule debug_amtable_alloc_grows [OF g b1 b2 n f e tbl i, of "file" line w])
    assume "debug_amtable_alloc st file line table current elsize count bump init_func w =
         Inl (alloc_failed file line (new * elsize))"
      "platform st (length (heap (fst (debug_caller_loc st file line)))) = NoMem"
    then show ?thesis by simp
  next
    fix st' a' pre
    assume r: "debug_amtable_alloc st file line table current elsize count bump init_func w =
         Inr (st', Ptr a', new, snd (new_slots init_func elsize current new w))"
      and p: "platform st (length (heap (fst (debug_caller_loc st file line)))) \<noteq> NoMem"
      and fr: "block st a' = None"
      and bl: "block st' a' = Some (pre @ fst (new_slots init_func elsize current new w))"
      and lp: "length pre = current * elsize"
      and o: "\<forall>a old. table = Ptr a \<and> block st a = Some old \<longrightarrow>
         pre = take (current * elsize) old \<and> block st' a = None"
    have pre: "pre = take (current * elsize) old"
    proof (cases table)
      case Null
      from h have tb: "table_bytes st table = Some old" and co: "current * elsize \<le> length old"
        by blast+
      from tb Null have "old = []" by (simp add: table_bytes_def)
      with co lp show ?thesis by auto
    next
      case (Ptr a)
      with h o show ?thesis by (simp add: table_bytes_def)
    qed
    have rel: "\<forall>a. table = Ptr a \<longrightarrow> block st' a = None"
      using h o by (auto simp: table_bytes_def)
    from r p fr bl pre rel show ?thesis by blast
  qed
qed

lemma new_slots_log:
  "new_slots (Some log_init) 4 3 8 [] = (replicate 20 (CHR ''i''), [12, 16, 20, 24, 28])"
  by code_simp

lemma log_init_wf:
  "\<forall>f. Some log_init = Some f \<longrightarrow>
     (\<forall>off v el. length el = 4 \<longrightarrow> length (snd (f off v el)) = 4)"
  by (simp add: log_init_def)

theorem debug_amtable_alloc_preserves_witness:
  "table_bytes st_table (Ptr 0) = Some ''abcdefghijkl'' \<and>
   new_capacity (debug_amtable_alloc st_table ''a.c'' 1 (Ptr 0) 3 4 3 8 None ()) = Some 8 \<and>
   new_table (debug_amtable_alloc st_table ''a.c'' 1 (Ptr 0) 3 4 3 8 None ())
     = Some (''abcdefghijkl'' @ replicate 20 NUL) \<and>
   new_table (debug_amtable_alloc st_table ''a.c'' 1 (Ptr 0) 3 4 3 8 (Some log_init) [])
     = Some (''abcdefghijkl'' @ replicate 20 (CHR ''i'')) \<and>
   map_sum id (\<lambda>r. snd (snd (snd r)))
     (debug_amtable_alloc st_table ''a.c'' 1 (Ptr 0) 3 4 3 8 (Some log_init) [])
     = Inr [12, 16, 20, 24, 28] \<and>
   debug_amtable_alloc st_table ''a.c'' 1 (Ptr 0) 3 4 2 8 None () = Inr (st_table, Ptr 0, 3, ())"
proof -
  have tb: "table_bytes st_table (Ptr 0) = Some ''abcdefghijkl''"
    by (simp add: table_bytes_def block_def st_table_def)
  have p: "\<And>n. platform st_table n \<noteq> NoMem" by (simp add: st_table_def)
  have z: "new_slots None 4 3 8 () = (replicate 20 NUL, ())"
    by (simp add: new_slots_def)
  note t1 = debug_amtable_alloc_preserves
    [of 3 3 st_table "''a.c''" 1 "Ptr 0" 4 8 None "()" 8 "''abcdefghijkl''"]
  note t2 = debug_amtable_alloc_preserves
    [of 3 3 st_table "''a.c''" 1 "Ptr 0" 4 8 "Some log_init" "[]" 8 "''abcdefghijkl''"]
  note t3 = debug_amtable_alloc_preserves
    [of 2 3 st_table "''a.c''" 1 "Ptr 0" 4 8 None "()" 8 "''abcdefghijkl''"]
  from t1 tb p z
  have r1: "new_capacity (debug_amtable_alloc st_table ''a.c'' 1 (Ptr 0) 3 4 3 8 None ()) = Some 8"
    "new_table (debug_amtable_alloc st_table ''a.c'' 1 (Ptr 0) 3 4 3 8 None ())
       = Some (''abcdefghijkl'' @ replicate 20 NUL)"
    by (auto simp: new_capacity_def new_table_def)
  from t2 tb p new_slots_log log_init_wf
  have r2: "new_table (debug_amtable_alloc st_table ''a.c'' 1 (Ptr 0) 3 4 3 8 (Some log_init) [])
       = Some (''abcdefghijkl'' @ replicate 20 (CHR ''i''))"
    "map_sum id (\<lambda>r. snd (snd (snd r)))
       (debug_amtable_alloc st_table ''a.c'' 1 (Ptr 0) 3 4 3 8 (Some log_init) [])
       = Inr [12, 16, 20, 24, 28]"
    by (auto simp: new_table_def)
  from t3
  have r3: "debug_amtable_alloc st_table ''a.c'' 1 (Ptr 0) 3 4 2 8 None () = Inr (st_table, Ptr 0, 3, ())"
    by simp
  from tb r1 r2 r3 show ?thesis by simp
qed

text \<open>
  A growth whatever the sizes are: the new capacity is what the arithmetic on \<^verbatim>\<open>size_t\<close>
  gives, and so are the size of the new region, the offset of the first new slot and
  the number of bytes that \<^verbatim>\<open>memset\<close> clears. When the cleared bytes lie inside the new
  region, the call returns: the region holds the old bytes and the cleared bytes, and has
  the size that was asked for, at least one byte.
\<close>

lemma debug_amtable_alloc_region:
  fixes w :: 'w
  assumes grow: "current \<le> count" and nz: "size_t bump \<noteq> 0"
    and tcn: "mul_sz (add_sz count (size_t bump) div size_t bump) (size_t bump) = n"
    and nb: "mul_sz n elsize = nb"
    and off: "mul_sz current elsize = off"
    and zl: "mul_sz (sub_sz n current) elsize = zl"
    and fit: "off + zl \<le> max nb 1"
    and old: "block st a = Some old" "off \<le> length old"
    and nf: "platform st (length (heap (fst (debug_caller_loc st file line)))) \<noteq> NoMem"
  shows "\<exists>st' a' tail.
      debug_amtable_alloc st file line (Ptr a) current elsize count bump
        (None :: (nat \<Rightarrow> 'w \<Rightarrow> string \<Rightarrow> 'w \<times> string) option) w = Inr (st', Ptr a', n, w) \<and>
      block st' a' = Some (take off old @ replicate zl NUL @ tail) \<and>
      off + zl + length tail = max nb 1"
proof -
  have unf: "debug_amtable_alloc st file line (Ptr a) current elsize count bump
        (None :: (nat \<Rightarrow> 'w \<Rightarrow> string \<Rightarrow> 'w \<times> string) option) w =
      (case debug_alloc st file line nb of
         Inl e \<Rightarrow> Inl e
       | Inr (st1, table_new) \<Rightarrow>
           (case (case load st1 (Ptr a) 0 off of
                    Inl e \<Rightarrow> Inl e
                  | Inr bytes \<Rightarrow>
                      (case store st1 table_new 0 bytes of
                         Inl e \<Rightarrow> Inl e
                       | Inr st2 \<Rightarrow> free st2 (Ptr a))) of
              Inl e \<Rightarrow> Inl e
            | Inr st3 \<Rightarrow>
                (case store st3 table_new off (replicate zl NUL) of
                   Inl e \<Rightarrow> Inl e
                 | Inr st4 \<Rightarrow> Inr (st4, table_new, n, w))))"
    unfolding debug_amtable_alloc_def Let_def tcn nb off zl using grow nz
    by (simp cong: sum.case_cong prod.case_cong)
  show ?thesis
  proof (cases rule: debug_alloc_cases [of st "file" line nb])
    case Fatal
    with nf show ?thesis by simp
  next
    case (Ok st1 ys zs junk)
    define a' where "a' = length (heap st) + length ys"
    define jb where "jb = map junk [0..<max nb 1]"
    have ljb: "length jb = max nb 1" by (simp add: jb_def)
    have h1: "heap st1 = heap st @ ys @ [Some jb] @ zs"
      using Ok(4) by (simp add: jb_def)
    have a1: "a' < length (heap st1)" by (simp add: h1 a'_def)
    have n1: "heap st1 ! a' = Some jb" by (simp add: h1 a'_def nth_append)
    from old have al: "a < length (heap st)" and an: "heap st ! a = Some old"
      by (simp_all add: block_def split: if_splits)
    have a1o: "a < length (heap st1)" using al by (simp add: h1)
    have n1o: "heap st1 ! a = Some old" using al an by (simp add: h1 nth_append)
    have ne: "a \<noteq> a'" using al by (simp add: a'_def)
    define bytes where "bytes = take off old"
    have lby: "length bytes = off" using old(2) by (simp add: bytes_def)
    have oj: "off \<le> length jb" using fit by (simp add: ljb)
    have ld: "load st1 (Ptr a) 0 off = Inr bytes"
      using load_ok [OF a1o n1o, of 0 off] old(2) by (simp add: bytes_def)
    define st2 where "st2 = st1\<lparr>heap := (heap st1)[a' := Some (bytes @ drop off jb)]\<rparr>"
    have so: "store st1 (Ptr a') 0 bytes = Inr st2"
      using store_ok [OF a1 n1, of 0 bytes] oj by (simp add: lby st2_def)
    have a2o: "a < length (heap st2)" using a1o by (simp add: st2_def)
    have n2o: "heap st2 ! a = Some old" using n1o ne by (simp add: st2_def)
    define st3 where "st3 = st2\<lparr>heap := (heap st2)[a := None]\<rparr>"
    have fr: "free st2 (Ptr a) = Inr st3"
      using free_ok [OF a2o n2o] by (simp add: st3_def)
    define b3 where "b3 = bytes @ drop off jb"
    have a3: "a' < length (heap st3)" using a1 by (simp add: st3_def st2_def)
    have n3: "heap st3 ! a' = Some b3" using a1 ne by (simp add: st3_def st2_def b3_def)
    have l3: "length b3 = max nb 1" using oj by (simp add: b3_def lby ljb)
    define zeros where "zeros = replicate zl NUL"
    define tail where "tail = drop (off + length zeros) b3"
    define st4 where
      "st4 = st3\<lparr>heap := (heap st3)[a' := Some (take off b3 @ zeros @ tail)]\<rparr>"
    have "off + length zeros \<le> length b3" using fit by (simp add: l3 zeros_def)
    then have "store st3 (Ptr a') off zeros =
        Inr (st3\<lparr>heap := (heap st3)[a' := Some (take off b3 @ zeros
               @ drop (off + length zeros) b3)]\<rparr>)"
      by (rule store_ok [OF a3 n3])
    then have ms: "store st3 (Ptr a') off (replicate zl NUL) = Inr st4"
      by (simp add: st4_def tail_def zeros_def)
    have r: "debug_amtable_alloc st file line (Ptr a) current elsize count bump
        (None :: (nat \<Rightarrow> 'w \<Rightarrow> string \<Rightarrow> 'w \<times> string) option) w = Inr (st4, Ptr a', n, w)"
      using Ok(1) by (simp add: unf a'_def [symmetric] ld so fr ms)
    have t3: "take off b3 = take off old" using old(2) by (simp add: b3_def lby bytes_def)
    have b4: "block st4 a' = Some (take off old @ replicate zl NUL @ tail)"
      using a3 by (simp add: block_def st4_def t3 zeros_def)
    have lt: "off + zl + length tail = max nb 1"
      using fit by (simp add: tail_def l3 zeros_def)
    from r b4 lt show ?thesis by blast
  qed
qed

text \<open>
  C8 as stated fails when a size overflows \<^verbatim>\<open>size_t\<close>. A table of three 4-byte elements
  is grown for a desired count of \<open>2 ^ 62\<close> with a bump of 8. The new capacity is
  \<open>2 ^ 62 + 8\<close>; the size of the new region, \<open>(2 ^ 62 + 8) * 4\<close>, wraps around to 32, and the
  number of bytes to clear, \<open>(2 ^ 62 + 5) * 4\<close>, to 20. The call returns: the capacity it
  sets is \<open>2 ^ 62 + 8\<close>, and the region it sets has 32 bytes, the three old elements and
  five zero-filled slots. The other slots of the new capacity are not zero-filled: they
  lie outside the region.
\<close>

theorem debug_amtable_alloc_preserves_counterexample:
  "(3::nat) \<le> 2 ^ 62 \<and>
   new_capacity (debug_amtable_alloc st_table ''a.c'' 1 (Ptr 0) 3 4 (2 ^ 62) 8 None ())
     = Some (2 ^ 62 + 8) \<and>
   new_table (debug_amtable_alloc st_table ''a.c'' 1 (Ptr 0) 3 4 (2 ^ 62) 8 None ())
     = Some (''abcdefghijkl'' @ replicate 20 NUL) \<and>
   length (''abcdefghijkl'' @ replicate 20 NUL) = 8 * 4"
proof -
  have g: "(3::nat) \<le> 2 ^ 62" by simp
  have nz: "size_t 8 \<noteq> 0" by (simp add: size_t_def)
  have tcn: "mul_sz (add_sz (2 ^ 62) (size_t 8) div size_t 8) (size_t 8) = 2 ^ 62 + 8"
    by (simp add: mul_sz_def add_sz_def size_t_def)
  have nb: "mul_sz (2 ^ 62 + 8) 4 = 32" by (simp add: mul_sz_def)
  have off: "mul_sz 3 4 = 12" by (simp add: mul_sz_def)
  have zl: "mul_sz (sub_sz (2 ^ 62 + 8) 3) 4 = 20"
    by (simp add: mul_sz_def sub_sz_def size_t_def)
  have fit: "(12::nat) + 20 \<le> max 32 1" by simp
  have old: "block st_table 0 = Some ''abcdefghijkl''" "12 \<le> length ''abcdefghijkl''"
    by (simp_all add: block_def st_table_def)
  have nf: "platform st_table (length (heap (fst (debug_caller_loc st_table ''a.c'' 1)))) \<noteq> NoMem"
    by (simp add: st_table_def)
  from debug_amtable_alloc_region [OF g nz tcn nb off zl fit old nf, of "()"]
  obtain st' a' tail where
    r: "debug_amtable_alloc st_table ''a.c'' 1 (Ptr 0) 3 4 (2 ^ 62) 8 None ()
          = Inr (st', Ptr a', 2 ^ 62 + 8, ())"
    and b: "block st' a' = Some (take 12 ''abcdefghijkl'' @ replicate 20 NUL @ tail)"
    and l: "12 + 20 + length tail = max (32::nat) 1"
    by blast
  from l have "tail = []" by simp
  with r b g show ?thesis
    by (simp add: new_capacity_def new_table_def)
qed

subsection \<open>debug_amtable_free\<close>

lemma load_released:
  assumes "a < length (heap st)" "heap st ! a = None"
  shows "load st (Ptr a) off n = Inl (Undefined ''read of a region that is not allocated'')"
  using assms by (simp add: load_def block_def)

lemma debug_amtable_alloc_dangling:
  fixes init_func :: "(nat \<Rightarrow> 'w \<Rightarrow> string \<Rightarrow> 'w \<times> string) option"
  assumes a: "a < length (heap st)" and n: "heap st ! a = None"
  shows "\<exists>e. debug_amtable_alloc st file line (Ptr a) 0 elsize count bump init_func w = Inl e"
proof (cases "size_t bump = 0")
  case True
  then show ?thesis by (simp add: debug_amtable_alloc_def)
next
  case False
  define sz where
    "sz = mul_sz (mul_sz (add_sz count (size_t bump) div size_t bump) (size_t bump)) elsize"
  show ?thesis
  proof (cases rule: debug_alloc_cases [of st "file" line sz])
    case Fatal
    then show ?thesis using False by (simp add: debug_amtable_alloc_def Let_def sz_def)
  next
    case (Ok st1 ys zs junk)
    have "a < length (heap st1)" "heap st1 ! a = None"
      using a n Ok(4) by (simp_all add: nth_append)
    then have "\<And>k. load st1 (Ptr a) 0 k =
        Inl (Undefined ''read of a region that is not allocated'')"
      by (rule load_released)
    then show ?thesis
      using False Ok(1) by (simp add: debug_amtable_alloc_def Let_def sz_def)
  qed
qed

text \<open>
  C10. Releasing a table whose handle points to a live region returns with the capacity
  set to zero and the handle unchanged: it still holds the address of the region, which is
  now released. With the handle left as it is, a second release frees a region that is
  not allocated, and no growth returns normally (it reads the released region once the new
  region is allocated). With the handle set to null, a release returns normally and does
  nothing, and a growth of the empty table returns a new region or ends in the fatal end
  of \<^verbatim>\<open>debug_alloc\<close>.
\<close>

theorem debug_amtable_free_keeps_handle:
  fixes w :: 'w
  assumes "block st a = Some b"
  shows "\<exists>st'.
      debug_amtable_free st file line (Ptr a) current = Inr (st', Ptr a, 0) \<and>
      block st' a = None \<and>
      debug_amtable_free st' file line (Ptr a) 0 =
        Inl (Undefined ''free of a region that is not allocated'') \<and>
      (\<forall>elsize count bump (init_func :: (nat \<Rightarrow> 'w \<Rightarrow> string \<Rightarrow> 'w \<times> string) option) v.
         \<exists>e. debug_amtable_alloc st' file line (Ptr a) 0 elsize count bump init_func v = Inl e) \<and>
      debug_amtable_free st' file line Null 0 = Inr (st', Null, 0) \<and>
      (\<forall>elsize count bump new.
         0 < bump \<and> count + nat bump < 2 ^ 64 \<and> new = (count div nat bump + 1) * nat bump \<and>
         new * elsize < 2 ^ 64 \<and> 0 < elsize \<longrightarrow>
           (\<exists>st'' a'. debug_amtable_alloc st' file line Null 0 elsize count bump None w =
                        Inr (st'', Ptr a', new, w))
           \<or> (debug_amtable_alloc st' file line Null 0 elsize count bump None w =
                 Inl (alloc_failed file line (new * elsize)) \<and>
               platform st' (length (heap (fst (debug_caller_loc st' file line)))) = NoMem))"
proof -
  from assms have al: "a < length (heap st)" and an: "heap st ! a = Some b"
    by (simp_all add: block_def split: if_splits)
  define st' where "st' = st\<lparr>heap := (heap st)[a := None]\<rparr>"
  have al': "a < length (heap st')" and an': "heap st' ! a = None"
    using al by (simp_all add: st'_def)
  have b': "block st' a = None" using al' an' by (simp add: block_def)
  have f1: "debug_amtable_free st file line (Ptr a) current = Inr (st', Ptr a, 0)"
    using free_ok [OF al an] by (simp add: debug_amtable_free_def debug_amfree_def st'_def)
  have f2: "debug_amtable_free st' file line (Ptr a) 0 =
        Inl (Undefined ''free of a region that is not allocated'')"
    using b' by (simp add: debug_amtable_free_def debug_amfree_def free_def)
  have f3: "debug_amtable_free st' file line Null 0 = Inr (st', Null, 0)"
    by (simp add: debug_amtable_free_def debug_amfree_def free_def)
  have g1: "\<exists>e. debug_amtable_alloc st' file line (Ptr a) 0 elsize count bump init_func v = Inl e"
    for elsize count bump v and init_func :: "(nat \<Rightarrow> 'w \<Rightarrow> string \<Rightarrow> 'w \<times> string) option"
    using al' an' by (rule debug_amtable_alloc_dangling)
  have g2: "(\<exists>st'' a'. debug_amtable_alloc st' file line Null 0 elsize count bump None w =
                        Inr (st'', Ptr a', new, w))
           \<or> (debug_amtable_alloc st' file line Null 0 elsize count bump None w =
                 Inl (alloc_failed file line (new * elsize)) \<and>
               platform st' (length (heap (fst (debug_caller_loc st' file line)))) = NoMem)"
    if h: "0 < bump \<and> count + nat bump < 2 ^ 64 \<and> new = (count div nat bump + 1) * nat bump \<and>
         new * elsize < 2 ^ 64 \<and> 0 < elsize" for elsize count bump new
  proof -
    from h have b1: "0 < bump" and b2: "count + nat bump < 2 ^ 64"
      and n: "new = (count div nat bump + 1) * nat bump" and f: "new * elsize < 2 ^ 64"
      and e: "0 < elsize" by blast+
    have i: "\<forall>f. (None :: (nat \<Rightarrow> 'w \<Rightarrow> string \<Rightarrow> 'w \<times> string) option) = Some f \<longrightarrow>
       (\<forall>off v el. length el = elsize \<longrightarrow> length (snd (f off v el)) = elsize)" by simp
    have t: "Null = Null \<or>
      (\<exists>a old. Null = Ptr a \<and> block st' a = Some old \<and> 0 * elsize \<le> length old)" by simp
    have g: "(0::nat) \<le> count" by simp
    show ?thesis
    proof (rule debug_amtable_alloc_grows [OF g b1 b2 n f e t i, of "file" line w])
      assume "debug_amtable_alloc st' file line Null 0 elsize count bump None w =
         Inl (alloc_failed file line (new * elsize))"
        "platform st' (length (heap (fst (debug_caller_loc st' file line)))) = NoMem"
      then show ?thesis by simp
    next
      fix st'' a' pre
      assume r: "debug_amtable_alloc st' file line Null 0 elsize count bump None w =
         Inr (st'', Ptr a', new, snd (new_slots None elsize 0 new w))"
        and fr: "block st' a' = None"
        and bl: "block st'' a' = Some (pre @ fst (new_slots None elsize 0 new w))"
      from r show ?thesis by (simp add: new_slots_def)
    qed
  qed
  from f1 b' f2 f3 g1 g2 show ?thesis by blast
qed

theorem debug_amtable_free_keeps_handle_witness:
  "block st_table 0 = Some ''abcdefghijkl'' \<and>
   debug_amtable_free st_table ''a.c'' 1 (Ptr 0) 3 = Inr (release st_table 0, Ptr 0, 0) \<and>
   block (release st_table 0) 0 = None \<and>
   debug_amtable_free (release st_table 0) ''a.c'' 1 (Ptr 0) 0 =
     Inl (Undefined ''free of a region that is not allocated'') \<and>
   isl (debug_amtable_alloc (release st_table 0) ''a.c'' 1 (Ptr 0) 0 4 3 8 None ()) \<and>
   debug_amtable_free (release st_table 0) ''a.c'' 1 Null 0 = Inr (release st_table 0, Null, 0) \<and>
   new_capacity (debug_amtable_alloc (release st_table 0) ''a.c'' 1 Null 0 4 3 8 None ()) = Some 8"
proof -
  have h: "block st_table 0 = Some ''abcdefghijkl''"
    by (simp add: block_def st_table_def)
  have e: "debug_amtable_free st_table ''a.c'' 1 (Ptr 0) 3 = Inr (release st_table 0, Ptr 0, 0)"
    using h by (simp add: debug_amtable_free_def debug_amfree_def free_def)
  have p: "\<And>n. platform (release st_table 0) n \<noteq> NoMem"
    by (simp add: release_def st_table_def)
  from debug_amtable_free_keeps_handle [OF h, of "''a.c''" 1 3 "()"]
  obtain st' where
    s1: "debug_amtable_free st_table ''a.c'' 1 (Ptr 0) 3 = Inr (st', Ptr 0, 0)"
    and s2: "block st' 0 = None"
    and s3: "debug_amtable_free st' ''a.c'' 1 (Ptr 0) 0 =
       Inl (Undefined ''free of a region that is not allocated'')"
    and s4: "\<forall>elsize count bump (init_func :: (nat \<Rightarrow> unit \<Rightarrow> string \<Rightarrow> unit \<times> string) option) v.
       \<exists>e. debug_amtable_alloc st' ''a.c'' 1 (Ptr 0) 0 elsize count bump init_func v = Inl e"
    and s5: "debug_amtable_free st' ''a.c'' 1 Null 0 = Inr (st', Null, 0)"
    and s6: "\<forall>elsize count bump new.
         0 < bump \<and> count + nat bump < 2 ^ 64 \<and> new = (count div nat bump + 1) * nat bump \<and>
         new * elsize < 2 ^ 64 \<and> 0 < elsize \<longrightarrow>
           (\<exists>st'' a'. debug_amtable_alloc st' ''a.c'' 1 Null 0 elsize count bump None () =
                        Inr (st'', Ptr a', new, ()))
           \<or> (debug_amtable_alloc st' ''a.c'' 1 Null 0 elsize count bump None () =
                 Inl (alloc_failed ''a.c'' 1 (new * elsize)) \<and>
               platform st' (length (heap (fst (debug_caller_loc st' ''a.c'' 1)))) = NoMem)"
    by blast
  from s1 e have st': "st' = release st_table 0" by simp
  from s4 have d: "isl (debug_amtable_alloc st' ''a.c'' 1 (Ptr 0) 0 4 3 8 None ())"
    by (metis sum.disc(1))
  have "platform st' (length (heap (fst (debug_caller_loc st' ''a.c'' 1)))) \<noteq> NoMem"
    unfolding st' by (rule p)
  note nf = this
  have "(0::int) < 8 \<and> (3::nat) + nat 8 < 2 ^ 64 \<and> (8::nat) = (3 div nat 8 + 1) * nat 8 \<and>
         (8::nat) * 4 < 2 ^ 64 \<and> (0::nat) < 4" by simp
  with s6 nf
  have "\<exists>st'' a'. debug_amtable_alloc st' ''a.c'' 1 Null 0 4 3 8 None () = Inr (st'', Ptr a', 8, ())"
    by blast
  then have c: "new_capacity (debug_amtable_alloc st' ''a.c'' 1 Null 0 4 3 8 None ()) = Some 8"
    by (auto simp: new_capacity_def)
  from h e s2 s3 s5 d c show ?thesis by (simp add: st')

qed

subsection \<open>debug_vstrallocf\<close>

lemma vsnprintf_rendering:
  assumes "a < length (heap st)" "heap st ! a = Some b" "0 < n" "n \<le> length b"
  shows "vsnprintf (rendering text') st (Ptr a) n =
           Inr (st\<lparr>heap := (heap st)[a := Some (take (n - 1) text' @ [NUL]
                  @ drop (min (length text') (n - 1) + 1) b)]\<rparr>, int (length text'))"
  using assms by (simp add: vsnprintf_def rendering_def store_ok [where b = b])

lemma vsnprintf_nothing:
  assumes "a < length (heap st)" "heap st ! a = Some b" "render n = ([], ret)"
  shows "vsnprintf render st (Ptr a) n = Inr (st, ret)"
proof -
  have "st\<lparr>heap := (heap st)[a := Some b]\<rparr> = st"
    using assms(1,2) by (simp add: list_update_same_conv)
  then show ?thesis
    using assms store_ok [of a st b 0 "[]"] by (simp add: vsnprintf_def)
qed

lemma size_t_length: "n \<le> INT_MAX \<Longrightarrow> size_t (int n) = n"
  using size_t_nat [of "int n"] by (simp add: INT_MAX_def)

lemma add_sz_length:
  assumes "n \<le> INT_MAX"
  shows "add_sz n 1 = Suc n" "add_sz n (Suc 0) = Suc n"
  using assms by (simp_all add: add_sz_def INT_MAX_def)

lemma size_t_minus_one:
  "MIN_ALLOC \<le> size_t (- 1)" "add_sz (size_t (- 1)) 1 = 0" "add_sz (size_t (- 1)) (Suc 0) = 0"
  by (simp_all add: size_t_def add_sz_def MIN_ALLOC_def)

lemma debug_vstrallocf_result:
  assumes len: "length text' \<le> INT_MAX"
  shows "(\<exists>st' a tail.
      debug_vstrallocf st file line (rendering text') = Inr (st', Ptr a) \<and>
      block st a = None \<and>
      block st' a = Some (text' @ [NUL] @ tail) \<and>
      length tail = (if length text' < MIN_ALLOC then MIN_ALLOC - (length text' + 1) else 0))
   \<or> ((\<exists>n. debug_vstrallocf st file line (rendering text') = Inl (alloc_failed file line n)) \<and>
       (\<exists>k. platform st k = NoMem))"
proof -
  define st0 where "st0 = fst (debug_caller_loc st file line)"
  obtain xs where xs: "heap st0 = heap st @ xs"
    using debug_caller_loc_heap [of st "file" line] by (auto simp: st0_def)
  have p0: "platform st0 = platform st" by (simp add: st0_def)
  have sz: "size_t (int (length text')) = length text'"
    using len by (rule size_t_length)
  note sz1 = add_sz_length [OF len]
  show ?thesis
  proof (cases rule: debug_alloc_cases [of st0 "file" line MIN_ALLOC])
    case Fatal
    then show ?thesis
      by (auto simp: debug_vstrallocf_def malloc_enter_def st0_def [symmetric] p0)
  next
    case (Ok st1 ys zs junk)
    note O1 = Ok
    define a where "a = length (heap st0) + length ys"
    define b where "b = map junk [0..<MIN_ALLOC]"
    have h1: "heap st1 = heap st0 @ ys @ [Some b] @ zs"
      using Ok(4) by (simp add: b_def MIN_ALLOC_def)
    have a1: "a < length (heap st1)" by (simp add: h1 a_def)
    have n1: "heap st1 ! a = Some b" by (simp add: h1 a_def nth_append)
    have lb: "length b = MIN_ALLOC" by (simp add: b_def)
    define b2 where "b2 = take (MIN_ALLOC - 1) text' @ [NUL]
        @ drop (min (length text') (MIN_ALLOC - 1) + 1) b"
    define st2 where "st2 = st1\<lparr>heap := (heap st1)[a := Some b2]\<rparr>"
    have v1: "vsnprintf (rendering text') st1 (Ptr a) MIN_ALLOC = Inr (st2, int (length text'))"
      using vsnprintf_rendering [OF a1 n1, of MIN_ALLOC text']
      by (simp add: lb st2_def b2_def MIN_ALLOC_def)
    have a0: "block st a = None" by (simp add: block_def a_def xs)
    show ?thesis
    proof (cases "length text' < MIN_ALLOC")
      case True
      define st3 where "st3 = fst (debug_caller_loc st2 file line)"
      obtain ws where ws: "heap st3 = heap st2 @ ws"
        using debug_caller_loc_heap [of st2 "file" line] by (auto simp: st3_def)
      have r: "debug_vstrallocf st file line (rendering text') = Inr (st3, Ptr a)"
        using Ok(1) True
        by (simp add: debug_vstrallocf_def malloc_enter_def malloc_leave_def st0_def [symmetric]
            a_def [symmetric] v1 Let_def sz st3_def)
      have b2': "b2 = text' @ [NUL] @ drop (length text' + 1) b"
        using True by (simp add: b2_def)
      have "block st3 a = Some b2"
        using a1 by (simp add: block_def ws st2_def nth_append)
      with r a0 True show ?thesis
        by (auto simp: b2' lb)
    next
      case False
      define st3 where "st3 = st2\<lparr>heap := (heap st2)[a := None]\<rparr>"
      have a2: "a < length (heap st2)" using a1 by (simp add: st2_def)
      have n2: "heap st2 ! a = Some b2" using a1 by (simp add: st2_def)
      have f: "debug_amfree st2 file line (Ptr a) = Inr st3"
        using free_ok [OF a2 n2] by (simp add: debug_amfree_def st3_def)
      have p3: "platform st3 = platform st"
        using Ok(5) by (simp add: st3_def st2_def p0)
      have l3: "length (heap st3) = length (heap st1)" by (simp add: st3_def st2_def)
      show ?thesis
      proof (cases rule: debug_alloc_cases [of st3 "file" line "length text' + 1"])
        case Fatal
        have "debug_vstrallocf st file line (rendering text')
                = Inl (alloc_failed file line (length text' + 1))"
          using Ok(1) False Fatal(1)
          by (simp add: debug_vstrallocf_def malloc_enter_def st0_def [symmetric]
              a_def [symmetric] v1 Let_def sz sz1 f)
        with Fatal(2) show ?thesis by (auto simp: p3)
      next
        case (Ok st4 ys' zs' junk')
        define a' where "a' = length (heap st3) + length ys'"
        define b' where "b' = map junk' [0..<length text' + 1]"
        have h4: "heap st4 = heap st3 @ ys' @ [Some b'] @ zs'"
          using Ok(4) by (simp add: b'_def)
        have a4: "a' < length (heap st4)" by (simp add: h4 a'_def)
        have n4: "heap st4 ! a' = Some b'" by (simp add: h4 a'_def nth_append)
        have lb': "length b' = length text' + 1" by (simp add: b'_def)
        define st5 where "st5 = st4\<lparr>heap := (heap st4)[a' := Some (text' @ [NUL])]\<rparr>"
        have v4: "vsnprintf (rendering text') st4 (Ptr a') (length text' + 1)
                    = Inr (st5, int (length text'))"
          using vsnprintf_rendering [OF a4 n4, of "length text' + 1" text']
          by (simp add: lb' st5_def)
        then have v4': "vsnprintf (rendering text') st4 (Ptr a') (Suc (length text'))
                    = Inr (st5, int (length text'))"
          by simp
        define st6 where "st6 = fst (debug_caller_loc st5 file line)"
        obtain ws where ws: "heap st6 = heap st5 @ ws"
          using debug_caller_loc_heap [of st5 "file" line] by (auto simp: st6_def)
        have r: "debug_vstrallocf st file line (rendering text') = Inr (st6, Ptr a')"
          using O1(1) False Ok(1)
          by (simp add: debug_vstrallocf_def malloc_enter_def malloc_leave_def
              st0_def [symmetric] a_def [symmetric] v1 Let_def sz sz1 f a'_def [symmetric] v4' st6_def)
        have b6: "block st6 a' = Some (text' @ [NUL])"
          using a4 by (simp add: block_def ws st5_def nth_append)
        have "block st a' = None"
          by (simp add: block_def a'_def l3 h1 xs)
        with r b6 False show ?thesis by auto
      qed
    qed
  qed
qed

text \<open>
  A formatter that reports an error returns a negative \<^verbatim>\<open>int\<close>. The assignment to the
  \<^verbatim>\<open>size_t\<close> wraps \<open>- 1\<close> to \<open>2 ^ 64 - 1\<close>, which is not below \<^verbatim>\<open>MIN_ALLOC\<close>, and
  \<^verbatim>\<open>size + 1\<close> wraps to 0: the initial buffer is released, \<^verbatim>\<open>debug_alloc(0)\<close> asks the
  platform for one byte, the second \<^verbatim>\<open>vsnprintf\<close> has a buffer size of 0 and writes
  nothing, and the call returns a region of one byte that was never written.
\<close>

lemma debug_vstrallocf_render_error:
  "(\<exists>st' a c.
      debug_vstrallocf st file line render_error = Inr (st', Ptr a) \<and>
      block st' a = Some [c])
   \<or> ((\<exists>n. debug_vstrallocf st file line render_error = Inl (alloc_failed file line n)) \<and>
       (\<exists>k. platform st k = NoMem))"
proof -
  define st0 where "st0 = fst (debug_caller_loc st file line)"
  have p0: "platform st0 = platform st" by (simp add: st0_def)
  show ?thesis
  proof (cases rule: debug_alloc_cases [of st0 "file" line MIN_ALLOC])
    case Fatal
    then show ?thesis
      by (auto simp: debug_vstrallocf_def malloc_enter_def st0_def [symmetric] p0)
  next
    case (Ok st1 ys zs junk)
    note O1 = Ok
    define a where "a = length (heap st0) + length ys"
    define b where "b = map junk [0..<MIN_ALLOC]"
    have h1: "heap st1 = heap st0 @ ys @ [Some b] @ zs"
      using Ok(4) by (simp add: b_def MIN_ALLOC_def)
    have a1: "a < length (heap st1)" by (simp add: h1 a_def)
    have n1: "heap st1 ! a = Some b" by (simp add: h1 a_def nth_append)
    have v1: "vsnprintf render_error st1 (Ptr a) MIN_ALLOC = Inr (st1, - 1)"
      using vsnprintf_nothing [OF a1 n1, of render_error MIN_ALLOC "- 1"]
      by (simp add: render_error_def)
    define st3 where "st3 = st1\<lparr>heap := (heap st1)[a := None]\<rparr>"
    have f: "debug_amfree st1 file line (Ptr a) = Inr st3"
      using free_ok [OF a1 n1] by (simp add: debug_amfree_def st3_def)
    have p3: "platform st3 = platform st"
      using Ok(5) by (simp add: st3_def p0)
    show ?thesis
    proof (cases rule: debug_alloc_cases [of st3 "file" line 0])
      case Fatal
      have "debug_vstrallocf st file line render_error = Inl (alloc_failed file line 0)"
        using Ok(1) Fatal(1)
        by (simp add: debug_vstrallocf_def malloc_enter_def st0_def [symmetric]
            a_def [symmetric] v1 Let_def size_t_minus_one f)
      with Fatal(2) show ?thesis by (auto simp: p3)
    next
      case (Ok st4 ys' zs' junk')
      define a' where "a' = length (heap st3) + length ys'"
      have h4: "heap st4 = heap st3 @ ys' @ [Some [junk' 0]] @ zs'"
        using Ok(4) by simp
      have a4: "a' < length (heap st4)" by (simp add: h4 a'_def)
      have n4: "heap st4 ! a' = Some [junk' 0]" by (simp add: h4 a'_def nth_append)
      have v4: "vsnprintf render_error st4 (Ptr a') 0 = Inr (st4, - 1)"
        using vsnprintf_nothing [OF a4 n4, of render_error 0 "- 1"]
        by (simp add: render_error_def)
      define st6 where "st6 = fst (debug_caller_loc st4 file line)"
      obtain ws where ws: "heap st6 = heap st4 @ ws"
        using debug_caller_loc_heap [of st4 "file" line] by (auto simp: st6_def)
      have r: "debug_vstrallocf st file line render_error = Inr (st6, Ptr a')"
        using O1(1) Ok(1)
        by (simp add: debug_vstrallocf_def malloc_enter_def malloc_leave_def
            st0_def [symmetric] a_def [symmetric] v1 Let_def size_t_minus_one f
            a'_def [symmetric] v4 st6_def)
      have b6: "block st6 a' = Some [junk' 0]"
        using a4 n4 by (simp add: block_def ws nth_append)
      with r show ?thesis by auto
    qed
  qed
qed

lemma debug_vstrallocf_render_error_example:
  "result_size (debug_vstrallocf st_init ''a.c'' 1 render_error) = Some 1"
proof -
  have p: "\<And>n. platform st_init n \<noteq> NoMem" by (simp add: st_init_def)
  from debug_vstrallocf_render_error [of st_init "''a.c''" 1] p
  show ?thesis by (auto simp: result_size_def)
qed

text \<open>
  C1, as the code has it. For every format and arguments that \<^verbatim>\<open>vsnprintf\<close> renders
  without an error, to a text whose length it returns, the string \<^verbatim>\<open>debug_vstrallocf\<close>
  returns lies in a region that was not allocated before the call and holds the text
  followed by a terminating NUL. When the text has 64 characters or more, the region
  ends with the terminator: its size is the rendered length plus one. When the text has
  fewer than 64 characters, the region is the initial buffer of 64 bytes, and the
  \<open>64 - (length + 1)\<close> bytes after the terminator are unused. The only other outcome is
  the fatal end of \<^verbatim>\<open>debug_alloc\<close>, which needs the platform allocator to refuse a
  request.
\<close>

theorem debug_vstrallocf_buffer:
  assumes len: "length text' \<le> INT_MAX"
  shows "(\<exists>st' a tail.
      debug_vstrallocf st file line (rendering text') = Inr (st', Ptr a) \<and>
      block st a = None \<and>
      block st' a = Some (text' @ [NUL] @ tail) \<and>
      length tail = (if length text' < MIN_ALLOC then MIN_ALLOC - (length text' + 1) else 0))
   \<or> ((\<exists>n. debug_vstrallocf st file line (rendering text') = Inl (alloc_failed file line n)) \<and>
       (\<exists>k. platform st k = NoMem))"
  using len by (rule debug_vstrallocf_result)

theorem debug_vstrallocf_buffer_witness:
  "length ''report-2024'' \<le> INT_MAX \<and>
   result_string (debug_vstrallocf st_init ''a.c'' 1 (rendering ''report-2024'')) = Some ''report-2024'' \<and>
   length (replicate 70 CHR ''y'') \<le> INT_MAX \<and>
   result_string (debug_vstrallocf st_init ''a.c'' 1 (rendering (replicate 70 CHR ''y'')))
     = Some (replicate 70 CHR ''y'') \<and>
   result_size (debug_vstrallocf st_init ''a.c'' 1 (rendering (replicate 70 CHR ''y''))) = Some 71"
proof -
  have h1: "length ''report-2024'' \<le> INT_MAX" by (simp add: INT_MAX_def)
  have h2: "length (replicate 70 CHR ''y'') \<le> INT_MAX" by (simp add: INT_MAX_def)
  have p: "\<And>n. platform st_init n \<noteq> NoMem" by (simp add: st_init_def)
  have c: "cstr (replicate 70 CHR ''y'' @ [NUL]) = replicate 70 CHR ''y''"
    by (simp add: cstr_def takeWhile_append)
  from debug_vstrallocf_buffer [OF h1, of st_init "''a.c''" 1] p
  have r1: "result_string (debug_vstrallocf st_init ''a.c'' 1 (rendering ''report-2024''))
              = Some ''report-2024''"
    by (auto simp: result_string_def cstr_def)
  from debug_vstrallocf_buffer [OF h2, of st_init "''a.c''" 1] p
  have r2: "result_string (debug_vstrallocf st_init ''a.c'' 1 (rendering (replicate 70 CHR ''y'')))
              = Some (replicate 70 CHR ''y'')"
       "result_size (debug_vstrallocf st_init ''a.c'' 1 (rendering (replicate 70 CHR ''y'')))
              = Some 71"
    using c by (auto simp: result_string_def result_size_def MIN_ALLOC_def)
  from h1 h2 r1 r2 show ?thesis by simp
qed

text \<open>
  C1 as stated fails for a short text: \<^verbatim>\<open>"42-x"\<close> has rendered length 4, so the claim
  gives the region 5 bytes, and the region returned has 64.
\<close>

theorem debug_vstrallocf_counterexample:
  "result_string (debug_vstrallocf st_init ''a.c'' 1 (rendering ''42-x'')) = Some ''42-x'' \<and>
   length ''42-x'' + 1 = 5 \<and>
   result_size (debug_vstrallocf st_init ''a.c'' 1 (rendering ''42-x'')) = Some 64"
proof -
  have h: "length ''42-x'' \<le> INT_MAX" by (simp add: INT_MAX_def)
  have p: "\<And>n. platform st_init n \<noteq> NoMem" by (simp add: st_init_def)
  from debug_vstrallocf_result [OF h, of st_init "''a.c''" 1] p
  show ?thesis
    by (auto simp: result_string_def result_size_def cstr_def MIN_ALLOC_def)
qed

subsection \<open>safe_env\<close>

lemma caller_loc_alloc_c: "caller_loc ''alloc.c'' 461 = ''alloc.c@461''"
  by (simp add: caller_loc_def strrchr_def cstr_def snprintf_def fmt_d_def dec.simps)

lemma Suc4: "Suc (Suc (Suc (Suc 0))) = 4"
  by simp

text \<open>
  C3 does not hold of the code. In the branch for a process without privilege (the real
  and effective identifiers match) an entry is duplicated with \<^verbatim>\<open>stralloc\<close>, the fail-fast
  duplication: when the platform allocator grants the list and refuses the next request,
  \<^verbatim>\<open>safe_env\<close> does not return a shorter list, it ends in \<^verbatim>\<open>errordump\<close>. The other
  branch leaves its loop on a failed allocation and returns what it has built (lemma
  \<open>safe_env_privileged\<close> below).
\<close>

theorem safe_env_unprivileged_fatal:
  "uid pr_plain = euid pr_plain \<and> gid pr_plain = egid pr_plain \<and>
   safe_env False False pr_plain st_grant_once = Inl (alloc_failed ''alloc.c'' 461 4)"
  by (simp add: safe_env_def pr_plain_def st_grant_once_def malloc_def SIZEOF_char_ptr_def
      strncmp_eq_def cstr_def strlen_def stralloc_def debug_stralloc_def debug_alloc_def
      malloc_enter_def debug_caller_loc_def caller_loc_alloc_c Let_def Suc4)

lemma length_cstr_le: "length (cstr s) = strlen s"
  by (simp add: strlen_def)

lemma debug_stralloc_cases:
  obtains (Fatal)
      "debug_stralloc st file line s = Inl (alloc_failed file line (strlen s + 1))"
      "\<exists>k. platform st k = NoMem"
  | (Ok) st' a ws where
      "debug_stralloc st file line s = Inr (st', Ptr a)"
      "heap st' = heap st @ ws"
      "length (heap st) \<le> a" "a < length (heap st')"
      "heap st' ! a = Some (cstr s @ [NUL])"
      "platform st' = platform st"
proof -
  define st0 where "st0 = fst (debug_caller_loc st file line)"
  obtain xs where xs: "heap st0 = heap st @ xs"
    using debug_caller_loc_heap [of st "file" line] by (auto simp: st0_def)
  have p0: "platform st0 = platform st" by (simp add: st0_def)
  show ?thesis
  proof (cases rule: debug_alloc_cases [of st0 "file" line "strlen s + 1"])
    case Fatal
    have "debug_stralloc st file line s = Inl (alloc_failed file line (strlen s + 1))"
      using Fatal(1) by (simp add: debug_stralloc_def malloc_enter_def st0_def [symmetric])
    moreover have "\<exists>k. platform st k = NoMem" using Fatal(2) p0 by auto
    ultimately show ?thesis by (rule that(1))
  next
    case (Ok st1 ys zs junk)
    define a where "a = length (heap st0) + length ys"
    define jb where "jb = map junk [0..<strlen s + 1]"
    have h1: "heap st1 = heap st0 @ ys @ [Some jb] @ zs"
      using Ok(4) by (simp add: jb_def)
    have a1: "a < length (heap st1)" by (simp add: h1 a_def)
    have n1: "heap st1 ! a = Some jb" by (simp add: h1 a_def nth_append)
    define st2 where "st2 = st1\<lparr>heap := (heap st1)[a := Some (cstr s @ [NUL])]\<rparr>"
    have so: "store st1 (Ptr a) 0 (cstr s @ [NUL]) = Inr st2"
      using store_ok [OF a1 n1, of 0 "cstr s @ [NUL]"]
      by (simp add: jb_def length_cstr_le st2_def)
    define st3 where "st3 = fst (debug_caller_loc st2 file line)"
    obtain vs where vs: "heap st3 = heap st2 @ vs"
      using debug_caller_loc_heap [of st2 "file" line] by (auto simp: st3_def)
    have r: "debug_stralloc st file line s = Inr (st3, Ptr a)"
      using Ok(1)
      by (simp add: debug_stralloc_def malloc_enter_def malloc_leave_def st0_def [symmetric]
          a_def [symmetric] so st3_def)
    have h3: "heap st3 = heap st @ (xs @ ys @ [Some (cstr s @ [NUL])] @ zs @ vs)"
      by (simp add: vs st2_def h1 xs a_def list_update_append)
    have la: "length (heap st) \<le> a" by (simp add: a_def xs)
    have a3: "a < length (heap st3)" using a1 by (simp add: vs st2_def)
    have n3: "heap st3 ! a = Some (cstr s @ [NUL])"
      using a1 by (simp add: vs st2_def nth_append)
    have p3: "platform st3 = platform st"
      using Ok(5) by (simp add: st3_def st2_def p0)
    from r h3 la a3 n3 p3 show ?thesis by (rule that(2))
  qed
qed

lemma safe_env_copy_Inr:
  "safe_env_copy st envs p = Inr (st', r) \<Longrightarrow>
     \<exists>new ws. r = p @ new \<and> heap st' = heap st @ ws \<and>
       map (region st') new = map (\<lambda>e. Some (cstr e @ [NUL]))
         (filter (\<lambda>e. \<not> strncmp_eq ''LANG='' e 5 \<and> \<not> strncmp_eq ''LC_'' e 3) envs) \<and>
       (\<forall>x \<in> set new. \<exists>a. x = Ptr a \<and> length (heap st) \<le> a \<and> a < length (heap st'))"
proof (induction envs arbitrary: st p)
  case Nil
  then show ?case by simp
next
  case (Cons env rest)
  show ?case
  proof (cases "\<not> strncmp_eq ''LANG='' env 5 \<and> \<not> strncmp_eq ''LC_'' env 3")
    case False
    with Cons.prems have "safe_env_copy st rest p = Inr (st', r)" by auto
    from Cons.IH [OF this] False show ?thesis by auto
  next
    case True
    show ?thesis
    proof (cases rule: debug_stralloc_cases [of st "''alloc.c''" 461 env])
      case Fatal
      with Cons.prems True show ?thesis by (simp add: stralloc_def)
    next
      case (Ok st1 a ws)
      with Cons.prems True have "safe_env_copy st1 rest (p @ [Ptr a]) = Inr (st', r)"
        by (simp add: stralloc_def)
      from Cons.IH [OF this] obtain new vs where
        n: "r = (p @ [Ptr a]) @ new" "heap st' = heap st1 @ vs"
          "map (region st') new = map (\<lambda>e. Some (cstr e @ [NUL]))
            (filter (\<lambda>e. \<not> strncmp_eq ''LANG='' e 5 \<and> \<not> strncmp_eq ''LC_'' e 3) rest)"
          "\<forall>x \<in> set new. \<exists>a. x = Ptr a \<and> length (heap st1) \<le> a \<and> a < length (heap st')"
        by blast
      have ra: "region st' (Ptr a) = Some (cstr env @ [NUL])"
        using Ok(4,5) by (simp add: region_def block_def n(2) nth_append)
      have "r = p @ (Ptr a # new)" using n(1) by simp
      moreover have "heap st' = heap st @ (ws @ vs)" using n(2) Ok(2) by simp
      moreover have "map (region st') (Ptr a # new) = map (\<lambda>e. Some (cstr e @ [NUL]))
            (filter (\<lambda>e. \<not> strncmp_eq ''LANG='' e 5 \<and> \<not> strncmp_eq ''LC_'' e 3) (env # rest))"
        using True ra n(3) by simp
      moreover have "\<forall>x \<in> set (Ptr a # new).
          \<exists>a. x = Ptr a \<and> length (heap st) \<le> a \<and> a < length (heap st')"
        using n(4) Ok(2,3,4) n(2) by auto
      ultimately show ?thesis by blast
    qed
  qed
qed

lemma safe_env_copy_returns:
  "\<forall>k. platform st k \<noteq> NoMem \<Longrightarrow> \<exists>st' r. safe_env_copy st envs p = Inr (st', r)"
proof (induction envs arbitrary: st p)
  case Nil
  then show ?case by simp
next
  case (Cons env rest)
  show ?case
  proof (cases "\<not> strncmp_eq ''LANG='' env 5 \<and> \<not> strncmp_eq ''LC_'' env 3")
    case False
    with Cons.IH [OF Cons.prems, of p] show ?thesis by auto
  next
    case True
    show ?thesis
    proof (cases rule: debug_stralloc_cases [of st "''alloc.c''" 461 env])
      case Fatal
      with Cons.prems show ?thesis by auto
    next
      case (Ok st1 a ws)
      with Cons.prems have "\<forall>k. platform st1 k \<noteq> NoMem" by simp
      from Cons.IH [OF this, of "p @ [Ptr a]"] Ok(1) True show ?thesis
        by (simp add: stralloc_def)
    qed
  qed
qed

lemma NUL_notin_cstr: "NUL \<notin> set (cstr s)"
  unfolding cstr_def by (induction s) auto

lemma takeWhile_append_stop: "\<forall>x \<in> set xs. P x \<Longrightarrow> \<not> P y \<Longrightarrow> takeWhile P (xs @ y # ys) = xs"
  by (induction xs) auto

lemma cstr_terminated: "NUL \<notin> set xs \<Longrightarrow> cstr (xs @ [NUL]) = xs"
  unfolding cstr_def by (rule takeWhile_append_stop [where ys = "[]"]) auto

lemma cstr_copy: "cstr (cstr s @ [NUL]) = cstr s"
  by (rule cstr_terminated) (rule NUL_notin_cstr)

lemma lang_prefix:
  assumes "CHR ''='' \<in> set x"
  shows "(take 5 x = ''LANG='') = (takeWhile (\<lambda>c. c \<noteq> CHR ''='') x = ''LANG'')"
proof
  assume "take 5 x = ''LANG=''"
  then have "x = ''LANG='' @ drop 5 x" by (metis append_take_drop_id)
  then obtain r where "x = ''LANG='' @ r" ..
  then show "takeWhile (\<lambda>c. c \<noteq> CHR ''='') x = ''LANG''" by simp
next
  assume t: "takeWhile (\<lambda>c. c \<noteq> CHR ''='') x = ''LANG''"
  have "dropWhile (\<lambda>c. c \<noteq> CHR ''='') x \<noteq> []"
    using assms by (simp add: dropWhile_eq_Nil_conv) 
  then obtain y r where d: "dropWhile (\<lambda>c. c \<noteq> CHR ''='') x = y # r"
    by (cases "dropWhile (\<lambda>c. c \<noteq> CHR ''='') x") auto
  then have "y = CHR ''=''"
    using hd_dropWhile [of "\<lambda>c. c \<noteq> CHR ''=''" x] by auto
  with t d have "x = ''LANG'' @ CHR ''='' # r"
    by (metis takeWhile_dropWhile_id)
  then show "take 5 x = ''LANG=''" by simp
qed

lemma lc_prefix:
  "(take 3 x = ''LC_'') = (take 3 (takeWhile (\<lambda>c. c \<noteq> CHR ''='') x) = ''LC_'')"
proof (cases x)
  case Nil
  then show ?thesis by simp
next
  case (Cons a x1)
  show ?thesis
  proof (cases x1)
    case Nil
    with Cons show ?thesis by simp
  next
    case (Cons b x2)
    show ?thesis
    proof (cases x2)
      case Nil
      with Cons \<open>x = a # x1\<close> show ?thesis by simp
    next
      case (Cons c x3)
      with \<open>x1 = b # x2\<close> \<open>x = a # x1\<close> show ?thesis by auto
    qed
  qed
qed

lemma keep_locale_entry:
  assumes "CHR ''='' \<in> set (cstr e)"
  shows "(\<not> strncmp_eq ''LANG='' e 5 \<and> \<not> strncmp_eq ''LC_'' e 3) = (\<not> locale_entry e)"
proof -
  have c1: "cstr ''LANG='' = ''LANG=''" and c2: "cstr ''LC_'' = ''LC_''"
    by (simp_all add: cstr_def)
  have "strncmp_eq ''LANG='' e 5 = (take 5 (cstr e) = ''LANG='')"
    by (auto simp: strncmp_eq_def c1)
  moreover have "strncmp_eq ''LC_'' e 3 = (take 3 (cstr e) = ''LC_'')"
    by (auto simp: strncmp_eq_def c2)
  ultimately show ?thesis
    using lang_prefix [OF assms] lc_prefix [of "cstr e"]
    by (simp add: locale_entry_def entry_name_def)
qed

lemma malloc_Fresh:
  assumes "platform st (length (heap st)) = Fresh junk"
  shows "malloc st n = (st\<lparr>heap := heap st @ [Some (map junk [0..<n])]\<rparr>, Ptr (length (heap st)))"
  using assms by (simp add: malloc_def)

lemma malloc_NoMem:
  assumes "platform st (length (heap st)) = NoMem"
  shows "malloc st n = (st\<lparr>heap := heap st @ [None]\<rparr>, Null)"
  using assms by (simp add: malloc_def)

lemma store_entry:
  assumes a: "a < length (heap st)" and n: "heap st ! a = Some jb"
    and l: "length jb = length nm + 1 + (length v + 1)"
  shows "\<exists>st2 st3.
      store st (Ptr a) 0 nm = Inr st2 \<and>
      store st2 (Ptr a) (length nm) ''='' = Inr st3 \<and>
      store st3 (Ptr a) (length nm + 1) (v @ [NUL]) =
        Inr (st\<lparr>heap := (heap st)[a := Some (nm @ ''='' @ v @ [NUL])]\<rparr>)"
proof -
  define b2 where "b2 = nm @ drop (length nm) jb"
  define st2 where "st2 = st\<lparr>heap := (heap st)[a := Some b2]\<rparr>"
  have s1: "store st (Ptr a) 0 nm = Inr st2"
    using store_ok [OF a n, of 0 nm] l by (simp add: st2_def b2_def)
  have a2: "a < length (heap st2)" and n2: "heap st2 ! a = Some b2"
    using a by (simp_all add: st2_def)
  have l2: "length b2 = length jb" using l by (simp add: b2_def)
  define b3 where "b3 = nm @ ''='' @ drop (length nm + 1) jb"
  define st3 where "st3 = st\<lparr>heap := (heap st)[a := Some b3]\<rparr>"
  have t2: "take (length nm) b2 = nm" by (simp add: b2_def)
  have d2: "drop (length nm + length ''='') b2 = drop (length nm + 1) jb"
    using l by (simp add: b2_def)
  have "length nm + length ''='' \<le> length b2" using l by (simp add: l2)
  then have "store st2 (Ptr a) (length nm) ''='' =
      Inr (st2\<lparr>heap := (heap st2)[a := Some (take (length nm) b2 @ ''=''
              @ drop (length nm + length ''='') b2)]\<rparr>)"
    by (rule store_ok [OF a2 n2])
  then have s2: "store st2 (Ptr a) (length nm) ''='' = Inr st3"
    unfolding t2 d2 by (simp add: st2_def st3_def b3_def)
  have a3: "a < length (heap st3)" and n3: "heap st3 ! a = Some b3"
    using a by (simp_all add: st3_def)
  have l3: "length b3 = length jb" using l by (simp add: b3_def)
  have t3: "take (length nm + 1) b3 = nm @ ''=''" by (simp add: b3_def)
  have d3: "drop (length nm + 1 + length (v @ [NUL])) b3 = []"
    using l by (simp add: l3)
  have "length nm + 1 + length (v @ [NUL]) \<le> length b3" using l by (simp add: l3)
  then have "store st3 (Ptr a) (length nm + 1) (v @ [NUL]) =
      Inr (st3\<lparr>heap := (heap st3)[a := Some (take (length nm + 1) b3 @ (v @ [NUL])
              @ drop (length nm + 1 + length (v @ [NUL])) b3)]\<rparr>)"
    by (rule store_ok [OF a3 n3])
  then have s3: "store st3 (Ptr a) (length nm + 1) (v @ [NUL]) =
        Inr (st\<lparr>heap := (heap st)[a := Some (nm @ ''='' @ v @ [NUL])]\<rparr>)"
    unfolding t3 d3 by (simp add: st3_def)
  from s1 s2 s3 show ?thesis by blast
qed

lemma take_strlen: "take (strlen s) s = cstr s"
  unfolding strlen_def cstr_def by (metis takeWhile_eq_take)

lemma granted_all: "(\<forall>k. pf k \<noteq> NoMem) \<Longrightarrow> granted pf n m = m"
  by (induction m arbitrary: n) simp_all

lemma safe_env_allow_result:
  "\<exists>st' new ws.
     safe_env_allow g st names q = Inr (st', q @ new) \<and>
     heap st' = heap st @ ws \<and> platform st' = platform st \<and>
     map (region st') new = map (\<lambda>e. Some (e @ [NUL]))
       (take (granted (platform st) (length (heap st)) (length (allowed_entries g names)))
          (allowed_entries g names)) \<and>
     (\<forall>x \<in> set new. \<exists>a. x = Ptr a \<and> length (heap st) \<le> a \<and> a < length (heap st'))"
proof (induction names arbitrary: st q)
  case Nil
  have "safe_env_allow g st [] q = Inr (st, q @ [])" by simp
  then show ?case by (fastforce simp: allowed_entries_def)
next
  case (Cons p ps)
  show ?case
  proof (cases "g p")
    case None
    from Cons.IH [of st q] None show ?thesis
      by (simp add: allowed_entries_def)
  next
    case (Some v)
    define e where "e = cstr p @ ''='' @ cstr v"
    have ae: "allowed_entries g (p # ps) = e # allowed_entries g ps"
      using Some by (simp add: allowed_entries_def e_def)
    show ?thesis
    proof (cases "platform st (length (heap st))")
      case NoMem
      define st1 where "st1 = st\<lparr>heap := heap st @ [None]\<rparr>"
      have "safe_env_allow g st (p # ps) q = Inr (st1, q @ [])"
        using Some malloc_NoMem [OF NoMem] by (simp add: Let_def st1_def)
      moreover have "heap st1 = heap st @ [None]" "platform st1 = platform st"
        by (simp_all add: st1_def)
      moreover have "map (region st1) [] =
          map (\<lambda>e. Some (e @ [NUL]))
            (take (granted (platform st) (length (heap st)) (length (allowed_entries g (p # ps))))
               (allowed_entries g (p # ps)))"
        using NoMem by (simp add: ae)
      ultimately show ?thesis by (metis empty_iff empty_set)
    next
      case (Fresh junk)
      define a where "a = length (heap st)"
      define jb where "jb = map junk [0..<strlen p + 1 + (strlen v + 1)]"
      define st1 where "st1 = st\<lparr>heap := heap st @ [Some jb]\<rparr>"
      have m: "malloc st (strlen p + 1 + (strlen v + 1)) = (st1, Ptr a)"
        using malloc_Fresh [OF Fresh] by (simp add: st1_def jb_def a_def)
      have a1: "a < length (heap st1)" and n1: "heap st1 ! a = Some jb"
        by (simp_all add: st1_def a_def)
      have lj: "length jb = length (cstr p) + 1 + (length (cstr v) + 1)"
        by (simp add: jb_def strlen_def)
      define st4 where "st4 = st1\<lparr>heap := (heap st1)[a := Some (e @ [NUL])]\<rparr>"
      from store_entry [OF a1 n1 lj] obtain st2 st3 where
        s: "store st1 (Ptr a) 0 (cstr p) = Inr st2"
           "store st2 (Ptr a) (strlen p) ''='' = Inr st3"
           "store st3 (Ptr a) (strlen p + 1) (cstr v @ [NUL]) = Inr st4"
        by (auto simp: st4_def e_def strlen_def)
      have tk: "take (Suc (strlen v)) (cstr v) @ take (Suc (strlen v) - length (cstr v)) [NUL]
          = cstr v @ [NUL]"
        by (simp add: strlen_def)
      have step: "safe_env_allow g st (p # ps) q = safe_env_allow g st4 ps (q @ [Ptr a])"
        using Some m s
        by (simp add: Let_def take_strlen tk)
      have h4: "heap st4 = heap st @ [Some (e @ [NUL])]"
        by (simp add: st4_def st1_def a_def)
      have p4: "platform st4 = platform st" by (simp add: st4_def st1_def)
      define k where
        "k = granted (platform st) (Suc (length (heap st))) (length (allowed_entries g ps))"
      from Cons.IH [of st4 "q @ [Ptr a]"] obtain st' new ws where
        ih: "safe_env_allow g st4 ps (q @ [Ptr a]) = Inr (st', (q @ [Ptr a]) @ new)"
          "heap st' = heap st4 @ ws" "platform st' = platform st4"
          "map (region st') new = map (\<lambda>e. Some (e @ [NUL])) (take k (allowed_entries g ps))"
          "\<forall>x \<in> set new. \<exists>a. x = Ptr a \<and> length (heap st4) \<le> a \<and> a < length (heap st')"
        unfolding k_def by (auto simp: p4 h4)
      have gk: "granted (platform st) (length (heap st)) (length (allowed_entries g (p # ps)))
          = Suc k"
        using Fresh by (simp add: ae k_def)
      have ra: "region st' (Ptr a) = Some (e @ [NUL])"
        by (simp add: region_def block_def ih(2) h4 a_def nth_append)
      have c1: "safe_env_allow g st (p # ps) q = Inr (st', q @ (Ptr a # new))"
        using step ih(1) by simp
      have c2: "heap st' = heap st @ ([Some (e @ [NUL])] @ ws)" using ih(2) h4 by simp
      have c3: "platform st' = platform st" using ih(3) p4 by simp
      have c4: "map (region st') (Ptr a # new) =
          map (\<lambda>e. Some (e @ [NUL]))
            (take (granted (platform st) (length (heap st)) (length (allowed_entries g (p # ps))))
               (allowed_entries g (p # ps)))"
        unfolding gk using ra ih(4) by (simp add: ae)
      have c5: "\<forall>x \<in> set (Ptr a # new).
          \<exists>a. x = Ptr a \<and> length (heap st) \<le> a \<and> a < length (heap st')"
        using ih(5) by (auto simp: h4 a_def ih(2))
      from c1 c2 c3 c4 c5 show ?thesis by blast
    qed
  qed
qed

lemma allowed_entries_no_NUL: "e \<in> set (allowed_entries g names) \<Longrightarrow> NUL \<notin> set e"
  using NUL_notin_cstr by (auto simp: allowed_entries_def split: option.splits)

lemma cstr_allowed:
  "map (\<lambda>p. map_option cstr (region st p)) new =
     map Some xs"
  if "map (region st) new = map (\<lambda>e. Some (e @ [NUL])) xs" "\<forall>e \<in> set xs. NUL \<notin> set e"
proof -
  have "map (\<lambda>p. map_option cstr (region st p)) new = map (map_option cstr) (map (region st) new)"
    by simp
  also have "\<dots> = map (\<lambda>e. Some (cstr (e @ [NUL]))) xs"
    by (simp add: that(1))
  also have "\<dots> = map Some xs"
    using that(2) by (simp add: cstr_terminated)
  finally show ?thesis .
qed

lemma safe_env_unprivileged:
  assumes ids: "uid pr = euid pr \<and> gid pr = egid pr"
  shows "platform st (length (heap st)) = NoMem \<Longrightarrow>
           result_env (safe_env cygwin need_path_env pr st) = Some []"
    and "platform st (length (heap st)) \<noteq> NoMem \<Longrightarrow>
           result_env (safe_env cygwin need_path_env pr st) = None \<or>
           result_env (safe_env cygwin need_path_env pr st) =
             Some (map (\<lambda>e. Some (cstr e))
               (filter (\<lambda>e. \<not> strncmp_eq ''LANG='' e 5 \<and> \<not> strncmp_eq ''LC_'' e 3) (environ pr)))"
    and "\<forall>k. platform st k \<noteq> NoMem \<Longrightarrow>
           result_env (safe_env cygwin need_path_env pr st) =
             Some (map (\<lambda>e. Some (cstr e))
               (filter (\<lambda>e. \<not> strncmp_eq ''LANG='' e 5 \<and> \<not> strncmp_eq ''LC_'' e 3) (environ pr)))"
proof -
  show "result_env (safe_env cygwin need_path_env pr st) = Some []"
    if "platform st (length (heap st)) = NoMem"
    using ids malloc_NoMem [OF that] by (simp add: safe_env_def result_env_def Let_def)
  have ok: "result_env (safe_env cygwin need_path_env pr st) = None \<or>
           result_env (safe_env cygwin need_path_env pr st) =
             Some (map (\<lambda>e. Some (cstr e))
               (filter (\<lambda>e. \<not> strncmp_eq ''LANG='' e 5 \<and> \<not> strncmp_eq ''LC_'' e 3) (environ pr)))"
    and tot: "(\<forall>k. platform st k \<noteq> NoMem) \<longrightarrow>
           result_env (safe_env cygwin need_path_env pr st) \<noteq> None"
    if nf: "platform st (length (heap st)) \<noteq> NoMem"
  proof -
    from nf obtain junk where fr: "platform st (length (heap st)) = Fresh junk"
      by (cases "platform st (length (heap st))") auto
    define st1 where
      "st1 = st\<lparr>heap := heap st @ [Some (map junk [0..<(1 + length (environ pr)) * SIZEOF_char_ptr])]\<rparr>"
    have se: "safe_env cygwin need_path_env pr st = safe_env_copy st1 (environ pr) []"
      using ids malloc_Fresh [OF fr] by (simp add: safe_env_def Let_def st1_def)
    have p1: "platform st1 = platform st" by (simp add: st1_def)
    show "result_env (safe_env cygwin need_path_env pr st) = None \<or>
           result_env (safe_env cygwin need_path_env pr st) =
             Some (map (\<lambda>e. Some (cstr e))
               (filter (\<lambda>e. \<not> strncmp_eq ''LANG='' e 5 \<and> \<not> strncmp_eq ''LC_'' e 3) (environ pr)))"
    proof (cases "safe_env_copy st1 (environ pr) []")
      case (Inl e)
      then show ?thesis by (simp add: se result_env_def)
    next
      case (Inr x)
      obtain st' r where x: "x = (st', r)" by (cases x)
      from safe_env_copy_Inr [OF Inr [unfolded x]] obtain new where
        n: "r = new" "map (region st') new = map (\<lambda>e. Some (cstr e @ [NUL]))
         (filter (\<lambda>e. \<not> strncmp_eq ''LANG='' e 5 \<and> \<not> strncmp_eq ''LC_'' e 3) (environ pr))"
        by auto
      have "map (\<lambda>p. map_option cstr (region st' p)) new =
          map (map_option cstr) (map (region st') new)" by simp
      also have "\<dots> = map (\<lambda>e. Some (cstr e))
         (filter (\<lambda>e. \<not> strncmp_eq ''LANG='' e 5 \<and> \<not> strncmp_eq ''LC_'' e 3) (environ pr))"
        by (simp add: n(2) cstr_copy)
      finally show ?thesis
        using Inr by (simp add: se result_env_def x n(1))
    qed
    show "(\<forall>k. platform st k \<noteq> NoMem) \<longrightarrow>
           result_env (safe_env cygwin need_path_env pr st) \<noteq> None"
    proof
      assume "\<forall>k. platform st k \<noteq> NoMem"
      then have "\<forall>k. platform st1 k \<noteq> NoMem" by (simp add: p1)
      from safe_env_copy_returns [OF this, of "environ pr" "[]"]
      show "result_env (safe_env cygwin need_path_env pr st) \<noteq> None"
        by (auto simp: se result_env_def)
    qed
  qed
  from ok show "platform st (length (heap st)) \<noteq> NoMem \<Longrightarrow>
           result_env (safe_env cygwin need_path_env pr st) = None \<or>
           result_env (safe_env cygwin need_path_env pr st) =
             Some (map (\<lambda>e. Some (cstr e))
               (filter (\<lambda>e. \<not> strncmp_eq ''LANG='' e 5 \<and> \<not> strncmp_eq ''LC_'' e 3) (environ pr)))" .
  show "result_env (safe_env cygwin need_path_env pr st) =
             Some (map (\<lambda>e. Some (cstr e))
               (filter (\<lambda>e. \<not> strncmp_eq ''LANG='' e 5 \<and> \<not> strncmp_eq ''LC_'' e 3) (environ pr)))"
    if "\<forall>k. platform st k \<noteq> NoMem"
    using ok tot that by blast
qed

lemma safe_env_privileged:
  assumes ids: "\<not> (uid pr = euid pr \<and> gid pr = egid pr)"
  shows "result_env (safe_env cygwin need_path_env pr st) =
           Some (map Some
             (take (if platform st (length (heap st)) = NoMem then 0
                    else granted (platform st) (Suc (length (heap st)))
                           (length (allowed_entries (getenv pr)
                              (safe_env_list cygwin need_path_env))))
                (allowed_entries (getenv pr) (safe_env_list cygwin need_path_env))))"
proof (cases "platform st (length (heap st))")
  case NoMem
  have "result_env (safe_env cygwin need_path_env pr st) = Some []"
    unfolding safe_env_def if_not_P [OF ids]
    using malloc_NoMem [OF NoMem] by (simp add: result_env_def)
  then show ?thesis using NoMem by simp
next
  case (Fresh junk)
  define names where "names = safe_env_list cygwin need_path_env"
  define st1 where
    "st1 = st\<lparr>heap := heap st @ [Some (map junk [0..<(length names + 1) * SIZEOF_char_ptr])]\<rparr>"
  have se: "safe_env cygwin need_path_env pr st = safe_env_allow (getenv pr) st1 names []"
    unfolding safe_env_def if_not_P [OF ids]
    using malloc_Fresh [OF Fresh] by (simp add: st1_def names_def)
  have p1: "platform st1 = platform st" and l1: "length (heap st1) = Suc (length (heap st))"
    by (simp_all add: st1_def)
  define k where
    "k = granted (platform st) (Suc (length (heap st))) (length (allowed_entries (getenv pr) names))"
  from safe_env_allow_result [of "getenv pr" st1 names "[]"] obtain st' new where
    r: "safe_env_allow (getenv pr) st1 names [] = Inr (st', new)"
      "map (region st') new = map (\<lambda>e. Some (e @ [NUL])) (take k (allowed_entries (getenv pr) names))"
    unfolding k_def by (auto simp: p1 l1)
  have "\<forall>e \<in> set (take k (allowed_entries (getenv pr) names)). NUL \<notin> set e"
    using allowed_entries_no_NUL by (metis in_set_takeD)
  from cstr_allowed [OF r(2) this]
  have "result_env (safe_env cygwin need_path_env pr st) =
      Some (map Some (take k (allowed_entries (getenv pr) names)))"
    by (simp add: se r(1) result_env_def)
  then show ?thesis using Fresh by (simp add: k_def names_def)
qed

text \<open>
  C7, as the code has it. When the real and effective user and group identifiers match
  (and every entry of the environment has the form \<^verbatim>\<open>NAME=VALUE\<close>): if the allocation of
  the list fails, \<^verbatim>\<open>safe_env\<close> returns the empty list; if it succeeds, a list that
  \<^verbatim>\<open>safe_env\<close> returns is a copy of the environment, in order, without exactly the
  entries whose name is \<^verbatim>\<open>LANG\<close> or starts with \<^verbatim>\<open>LC_\<close>, and when no allocation fails
  it returns that list. When the identifiers differ, it returns \<^verbatim>\<open>NAME=VALUE\<close> strings
  for names of the allow-list that are set, in the order of the list: all of them when no
  allocation fails; otherwise exactly those before the first failed allocation, which is
  none of them when the allocation of the list fails, and else as many as consecutive
  allocations of an entry are granted after the list.
\<close>

theorem safe_env_filters:
  "(uid pr = euid pr \<and> gid pr = egid pr \<and>
    (\<forall>e \<in> set (environ pr). CHR ''='' \<in> set (cstr e)) \<longrightarrow>
      (platform st (length (heap st)) = NoMem \<longrightarrow>
         result_env (safe_env cygwin need_path_env pr st) = Some []) \<and>
      (platform st (length (heap st)) \<noteq> NoMem \<longrightarrow>
         result_env (safe_env cygwin need_path_env pr st) = None \<or>
         result_env (safe_env cygwin need_path_env pr st) =
           Some (map (\<lambda>e. Some (cstr e)) (filter (\<lambda>e. \<not> locale_entry e) (environ pr)))) \<and>
      ((\<forall>k. platform st k \<noteq> NoMem) \<longrightarrow>
         result_env (safe_env cygwin need_path_env pr st) =
           Some (map (\<lambda>e. Some (cstr e)) (filter (\<lambda>e. \<not> locale_entry e) (environ pr))))) \<and>
   (\<not> (uid pr = euid pr \<and> gid pr = egid pr) \<longrightarrow>
      result_env (safe_env cygwin need_path_env pr st) =
        Some (map Some
          (take (if platform st (length (heap st)) = NoMem then 0
                 else granted (platform st) (Suc (length (heap st)))
                        (length (allowed_entries (getenv pr)
                           (safe_env_list cygwin need_path_env))))
             (allowed_entries (getenv pr) (safe_env_list cygwin need_path_env)))) \<and>
      ((\<forall>k. platform st k \<noteq> NoMem) \<longrightarrow>
         result_env (safe_env cygwin need_path_env pr st) =
           Some (map Some (allowed_entries (getenv pr) (safe_env_list cygwin need_path_env)))))"
proof (intro conjI impI)
  assume h: "uid pr = euid pr \<and> gid pr = egid pr \<and>
    (\<forall>e \<in> set (environ pr). CHR ''='' \<in> set (cstr e))"
  then have ids: "uid pr = euid pr \<and> gid pr = egid pr" by simp
  have f: "filter (\<lambda>e. \<not> strncmp_eq ''LANG='' e 5 \<and> \<not> strncmp_eq ''LC_'' e 3) (environ pr) =
      filter (\<lambda>e. \<not> locale_entry e) (environ pr)"
    using h by (intro filter_cong refl keep_locale_entry) simp
  note u = safe_env_unprivileged [OF ids, of st cygwin need_path_env, unfolded f]
  show "result_env (safe_env cygwin need_path_env pr st) = Some []"
    if "platform st (length (heap st)) = NoMem"
    using that by (rule u(1))
  show "result_env (safe_env cygwin need_path_env pr st) = None \<or>
         result_env (safe_env cygwin need_path_env pr st) =
           Some (map (\<lambda>e. Some (cstr e)) (filter (\<lambda>e. \<not> locale_entry e) (environ pr)))"
    if "platform st (length (heap st)) \<noteq> NoMem"
    using that by (rule u(2))
  show "result_env (safe_env cygwin need_path_env pr st) =
           Some (map (\<lambda>e. Some (cstr e)) (filter (\<lambda>e. \<not> locale_entry e) (environ pr)))"
    if "\<forall>k. platform st k \<noteq> NoMem"
    using that by (rule u(3))
next
  assume ids: "\<not> (uid pr = euid pr \<and> gid pr = egid pr)"
  show "result_env (safe_env cygwin need_path_env pr st) =
        Some (map Some
          (take (if platform st (length (heap st)) = NoMem then 0
                 else granted (platform st) (Suc (length (heap st)))
                        (length (allowed_entries (getenv pr)
                           (safe_env_list cygwin need_path_env))))
             (allowed_entries (getenv pr) (safe_env_list cygwin need_path_env))))"
    using ids by (rule safe_env_privileged)
next
  assume ids: "\<not> (uid pr = euid pr \<and> gid pr = egid pr)"
    and nf: "\<forall>k. platform st k \<noteq> NoMem"
  from safe_env_privileged [OF ids, of cygwin need_path_env st] nf
  show "result_env (safe_env cygwin need_path_env pr st) =
           Some (map Some (allowed_entries (getenv pr) (safe_env_list cygwin need_path_env)))"
    by (simp add: granted_all)
qed

theorem safe_env_filters_witness:
  "uid pr_locale = euid pr_locale \<and> gid pr_locale = egid pr_locale \<and>
   environ pr_locale = [''LANG=C'', ''A=1'', ''LC_ALL=C''] \<and>
   result_env (safe_env False False pr_locale st_init) = Some [Some ''A=1''] \<and>
   result_env (safe_env False False pr_locale st_nomem) = Some [] \<and>
   uid pr_setuid \<noteq> euid pr_setuid \<and>
   result_env (safe_env False False pr_setuid st_init) = Some [Some ''TZ=UTC''] \<and>
   gid pr_setgid \<noteq> egid pr_setgid \<and>
   result_env (safe_env False False pr_setgid st_init)
     = Some [Some ''TZ=UTC'', Some ''DISPLAY=:0''] \<and>
   result_env (safe_env False False pr_setgid st_grant_twice) = Some [Some ''TZ=UTC''] \<and>
   result_env (safe_env False False pr_setgid st_grant_once) = Some [] \<and>
   result_env (safe_env False False pr_setgid st_nomem) = Some []"
proof -
  have i1: "uid pr_locale = euid pr_locale \<and> gid pr_locale = egid pr_locale \<and>
      (\<forall>e \<in> set (environ pr_locale). CHR ''='' \<in> set (cstr e))"
    by (simp add: pr_locale_def cstr_def)
  have e1: "environ pr_locale = [''LANG=C'', ''A=1'', ''LC_ALL=C'']"
    by (simp add: pr_locale_def)
  have p: "\<forall>k. platform st_init k \<noteq> NoMem" by (simp add: st_init_def)
  have q: "platform st_nomem (length (heap st_nomem)) = NoMem" by (simp add: st_nomem_def)
  have le: "locale_entry ''LANG=C''" "\<not> locale_entry ''A=1''" "locale_entry ''LC_ALL=C''"
    by (simp_all add: locale_entry_def entry_name_def cstr_def)
  have c: "cstr ''A=1'' = ''A=1''" by (simp add: cstr_def)
  from safe_env_filters [of pr_locale st_init False False] i1 p
  have r1: "result_env (safe_env False False pr_locale st_init) = Some [Some ''A=1'']"
    by (simp add: e1 le c)
  from safe_env_filters [of pr_locale st_nomem False False] i1 q
  have r2: "result_env (safe_env False False pr_locale st_nomem) = Some []"
    by simp
  have i2: "\<not> (uid pr_setuid = euid pr_setuid \<and> gid pr_setuid = egid pr_setuid)"
    by (simp add: pr_setuid_def)
  have ae: "allowed_entries (getenv pr_setuid) (safe_env_list False False) = [''TZ=UTC'']"
    by (simp add: allowed_entries_def safe_env_list_def pr_setuid_def cstr_def)
  from safe_env_filters [of pr_setuid st_init False False] i2 p
  have r3: "result_env (safe_env False False pr_setuid st_init) = Some [Some ''TZ=UTC'']"
    by (simp add: ae)
  have i3: "\<not> (uid pr_setgid = euid pr_setgid \<and> gid pr_setgid = egid pr_setgid)"
    by (simp add: pr_setgid_def)
  have ag: "allowed_entries (getenv pr_setgid) (safe_env_list False False)
      = [''TZ=UTC'', ''DISPLAY=:0'']"
    by (simp add: allowed_entries_def safe_env_list_def pr_setgid_def cstr_def)
  from safe_env_filters [of pr_setgid st_init False False] i3 p
  have r4: "result_env (safe_env False False pr_setgid st_init)
      = Some [Some ''TZ=UTC'', Some ''DISPLAY=:0'']"
    by (simp add: ag)
  from safe_env_filters [of pr_setgid st_grant_twice False False] i3
  have r5: "result_env (safe_env False False pr_setgid st_grant_twice) = Some [Some ''TZ=UTC'']"
    by (simp add: ag st_grant_twice_def)
  from safe_env_filters [of pr_setgid st_grant_once False False] i3
  have r6: "result_env (safe_env False False pr_setgid st_grant_once) = Some []"
    by (simp add: ag st_grant_once_def)
  from safe_env_filters [of pr_setgid st_nomem False False] i3 q
  have r7: "result_env (safe_env False False pr_setgid st_nomem) = Some []"
    by (simp add: ag)
  from i1 e1 r1 r2 i2 r3 i3 r4 r5 r6 r7 show ?thesis
    by (simp add: pr_setuid_def pr_setgid_def)
qed

text \<open>
  C7 as stated fails when the allocation of the list fails: for a process without
  privilege whose environment is the one entry \<^verbatim>\<open>A=1\<close>, which is no locale entry, the
  result is the empty list.
\<close>

theorem safe_env_filters_counterexample:
  "uid pr_plain = euid pr_plain \<and> gid pr_plain = egid pr_plain \<and>
   environ pr_plain = [''A=1''] \<and> \<not> locale_entry ''A=1'' \<and>
   result_env (safe_env False False pr_plain st_nomem) = Some []"
  by (simp add: pr_plain_def locale_entry_def entry_name_def cstr_def safe_env_def malloc_def
      st_nomem_def result_env_def)

end
